theory Spec2Isabelle
  imports Complex_Main "HOL-Library.AList"
begin

text \<open>
  A model of the two hooks of sounds-of-the-stratosphere that hold its logic:
  \<^verbatim>\<open>useObservationStream\<close> (normalising raw records, merging batches into the resident
  series, advancing the cursor, polling with a synthetic fallback) and
  \<^verbatim>\<open>useObservationPlayback\<close> (the playback index and its timer). State is passed
  explicitly, a thrown exception is the left summand of a result, and the numbers of
  JavaScript are reals with separate values for the infinities and NaN. Arithmetic is
  exact, except for the two products of the synthetic generator that are stored next to
  their own factor: those are rounded as the engine rounds them.
\<close>

section \<open>JavaScript values and the runtime\<close>

text \<open>
  A JavaScript number is a finite value, one of the two infinities, or NaN. Finite values are
  modelled as reals. Where a result depends on the rounding to IEEE doubles, the rounding
  is a function of the runtime below.
\<close>

datatype jsnum = Finite real | PosInfinity | NegInfinity | NaN

text \<open>The values \<^verbatim>\<open>JSON.parse\<close> can put into a record of type \<^verbatim>\<open>Record<string, unknown>\<close>.\<close>

datatype jsval =
    JUndefined
  | JNull
  | JBool bool
  | JNum jsnum
  | JStr string
  | JArr "jsval list"
  | JObj "(string \<times> jsval) list"

text \<open>Thrown values; all three are instances of \<^verbatim>\<open>Error\<close> and carry a message.\<close>

datatype exn = Error string | RangeError string | TypeError string

fun message :: "exn \<Rightarrow> string" where
  "message (Error m) = m"
| "message (RangeError m) = m"
| "message (TypeError m) = m"

text \<open>
  The built-ins of the language runtime that the hooks call are parameters of the model:
  the string-to-number conversion behind \<^verbatim>\<open>Number(s)\<close>, the number-to-string
  conversion behind \<^verbatim>\<open>String(n)\<close>, date parsing (\<^verbatim>\<open>new Date(s).getTime()\<close>, with
  \<open>None\<close> for an Invalid Date), \<^verbatim>\<open>toISOString\<close> on a valid time value, and the
  sources of nondeterminism: the clock, the random identifier and \<^verbatim>\<open>Math.random\<close>, each
  indexed by the position of the draw. \<^verbatim>\<open>Math.cos\<close> and \<^verbatim>\<open>Math.sin\<close> return
  approximations that the engine chooses, and \<open>roundDouble\<close> is the rounding of an exact
  result to a double.
\<close>

record runtime =
  StringToNumber :: "string \<Rightarrow> jsnum"
  NumberToString :: "real \<Rightarrow> string"
  DateParse :: "string \<Rightarrow> int option"
  DateToISOString :: "int \<Rightarrow> string"
  DateNow :: "nat \<Rightarrow> int"
  cryptoRandomId :: "nat \<Rightarrow> string"
  MathRandom :: "nat \<Rightarrow> real"
  MathCos :: "real \<Rightarrow> real"
  MathSin :: "real \<Rightarrow> real"
  roundDouble :: "real \<Rightarrow> real"

text \<open>\<^verbatim>\<open>Array.prototype.join\<close> with the default separator.\<close>

fun join :: "string list \<Rightarrow> string" where
  "join [] = []"
| "join [p] = p"
| "join (p # q # ps) = p @ '','' @ join (q # ps)"

text \<open>\<^verbatim>\<open>String(v)\<close>; inside an array, \<^verbatim>\<open>null\<close> and \<^verbatim>\<open>undefined\<close> print as the empty string.\<close>

fun ToString :: "runtime \<Rightarrow> jsval \<Rightarrow> string" where
  "ToString rt JUndefined = ''undefined''"
| "ToString rt JNull = ''null''"
| "ToString rt (JBool b) = (if b then ''true'' else ''false'')"
| "ToString rt (JNum (Finite r)) = NumberToString rt r"
| "ToString rt (JNum PosInfinity) = ''Infinity''"
| "ToString rt (JNum NegInfinity) = ''-Infinity''"
| "ToString rt (JNum NaN) = ''NaN''"
| "ToString rt (JStr s) = s"
| "ToString rt (JArr xs) =
     join (map (\<lambda>x. if x = JUndefined \<or> x = JNull then [] else ToString rt x) xs)"
| "ToString rt (JObj kvs) = ''[object Object]''"

text \<open>\<^verbatim>\<open>Number(v)\<close>: arrays and objects are converted through their string form.\<close>

fun ToNumber :: "runtime \<Rightarrow> jsval \<Rightarrow> jsnum" where
  "ToNumber rt JUndefined = NaN"
| "ToNumber rt JNull = Finite 0"
| "ToNumber rt (JBool b) = Finite (if b then 1 else 0)"
| "ToNumber rt (JNum n) = n"
| "ToNumber rt (JStr s) = StringToNumber rt s"
| "ToNumber rt (JArr xs) = StringToNumber rt (ToString rt (JArr xs))"
| "ToNumber rt (JObj kvs) = StringToNumber rt (ToString rt (JObj kvs))"

text \<open>The nullish coalescing operator \<^verbatim>\<open>a ?? b\<close>.\<close>

definition nullish :: "jsval \<Rightarrow> jsval \<Rightarrow> jsval" where
  "nullish a b = (if a = JUndefined \<or> a = JNull then b else a)"

text \<open>
  \<^verbatim>\<open>new Date(ms)\<close> for a finite number: the time value is the number truncated towards
  zero, or NaN (\<open>None\<close>) beyond 8.64e15 milliseconds from the epoch.
\<close>

definition TimeClip :: "real \<Rightarrow> int option" where
  "TimeClip ms =
     (if \<bar>ms\<bar> > 8640000000000000 then None
      else Some (if 0 \<le> ms then \<lfloor>ms\<rfloor> else \<lceil>ms\<rceil>))"

text \<open>\<^verbatim>\<open>Date.prototype.toISOString\<close> throws a RangeError on an Invalid Date.\<close>

definition toISOString :: "runtime \<Rightarrow> int option \<Rightarrow> exn + string" where
  "toISOString rt t =
     (case t of
        None \<Rightarrow> Inl (RangeError ''Invalid time value'')
      | Some tv \<Rightarrow> Inr (DateToISOString rt tv))"

definition hypot :: "real \<Rightarrow> real \<Rightarrow> real" where
  "hypot x y = sqrt (x\<^sup>2 + y\<^sup>2)"

definition clamp :: "real \<Rightarrow> real \<Rightarrow> real \<Rightarrow> real" where
  "clamp v mn mx = min (max v mn) mx"

text \<open>\<^verbatim>\<open>Math.round\<close> rounds a half towards positive infinity.\<close>

definition MathRound :: "real \<Rightarrow> int" where
  "MathRound x = \<lfloor>x + 1 / 2\<rfloor>"

text \<open>Array indexing \<^verbatim>\<open>xs[i]\<close>: \<^verbatim>\<open>undefined\<close> (\<open>None\<close>) out of range.\<close>

definition at_index :: "'a list \<Rightarrow> int \<Rightarrow> 'a option" where
  "at_index xs i = (if 0 \<le> i \<and> i < int (length xs) then Some (xs ! nat i) else None)"

text \<open>
  Running a list of computations that may throw, in order: the first exception ends the
  run, as it does in \<^verbatim>\<open>Array.prototype.map\<close> and \<^verbatim>\<open>Array.from\<close>.
\<close>

fun collect :: "('e + 'a) list \<Rightarrow> 'e + 'a list" where
  "collect [] = Inr []"
| "collect (Inl e # rs) = Inl e"
| "collect (Inr x # rs) = (case collect rs of Inl e \<Rightarrow> Inl e | Inr xs \<Rightarrow> Inr (x # xs))"

section \<open>Observations (useObservationStream.ts)\<close>

text \<open>
  \<^verbatim>\<open>DerivedObservation\<close>. The field \<^verbatim>\<open>id\<close> is named \<open>id_obs\<close> here. The field
  \<open>date\<close> holds the time value of the \<^verbatim>\<open>Date\<close> object in milliseconds, \<open>None\<close> for an
  Invalid Date. The numeric fields are always finite where this program builds an
  observation, so they are reals.
\<close>

record DerivedObservation =
  id_obs :: string
  missionId :: string
  timestamp :: string
  date :: "int option"
  altitude :: real
  temperature :: real
  humidity :: real
  speed_u :: real
  speed_v :: real
  windSpeed :: real

text \<open>A raw record: property lookup, \<^verbatim>\<open>undefined\<close> for an absent key.\<close>

type_synonym RawObservation = "string \<Rightarrow> jsval"

subsection \<open>Normalizer\<close>

fun coalesceNumber :: "runtime \<Rightarrow> jsval list \<Rightarrow> real \<Rightarrow> real" where
  "coalesceNumber rt [] fallback = fallback"
| "coalesceNumber rt (v # values) fallback =
     (case ToNumber rt v of
        Finite num \<Rightarrow> num
      | _ \<Rightarrow> coalesceNumber rt values fallback)"

text \<open>
  \<^verbatim>\<open>resolveTimestamp\<close>. The branch \<^verbatim>\<open>value instanceof Date\<close> has no counterpart: a parsed
  JSON document holds no \<^verbatim>\<open>Date\<close> object. The last equation is \<^verbatim>\<open>new Date().toISOString()\<close>.
\<close>

definition secondsOrMillis :: "real \<Rightarrow> real" where
  "secondsOrMillis v = (if v > 1000000000000 then v else v * 1000)"

fun resolveTimestamp :: "runtime \<Rightarrow> nat \<Rightarrow> jsval \<Rightarrow> exn + string" where
  "resolveTimestamp rt i (JNum (Finite v)) = toISOString rt (TimeClip (secondsOrMillis v))"
| "resolveTimestamp rt i (JStr s) =
     (case StringToNumber rt s of
        Finite maybeNumber \<Rightarrow> toISOString rt (TimeClip (secondsOrMillis maybeNumber))
      | _ \<Rightarrow> Inr s)"
| "resolveTimestamp rt i v = Inr (DateToISOString rt (DateNow rt i))"

text \<open>
  \<^verbatim>\<open>normalizeObservation\<close>, for the record at position \<open>i\<close> of its batch (the position
  selects the clock reading and the random identifier it would draw).
\<close>

definition normalizeObservation :: "runtime \<Rightarrow> nat \<Rightarrow> RawObservation \<Rightarrow> exn + DerivedObservation" where
  "normalizeObservation rt i raw =
     (let idStr = ToString rt
            (nullish (nullish (nullish (raw ''id'') (raw ''pk'')) (raw ''timestamp''))
               (JStr (cryptoRandomId rt i)));
          mission = ToString rt
            (nullish (nullish (raw ''mission_id'') (raw ''mission'')) (JStr ''unknown''))
      in case resolveTimestamp rt i
            (nullish (nullish (nullish (raw ''timestamp'') (raw ''datetime''))
               (raw ''observation_time'')) (JNum (Finite (real_of_int (DateNow rt i))))) of
           Inl e \<Rightarrow> Inl e
         | Inr ts \<Rightarrow>
            (let alt = coalesceNumber rt
                   [raw ''altitude'', raw ''altitude_m'', raw ''altitude_agl'',
                    raw ''altitude_from_gps''] 0;
                 temp = coalesceNumber rt
                   [raw ''temperature'', raw ''temperature_c'', raw ''temp'',
                    raw ''temperature_celsius''] 0;
                 hum = coalesceNumber rt
                   [raw ''humidity'', raw ''relative_humidity'', raw ''rh'',
                    raw ''humidity_percent''] 0;
                 u = coalesceNumber rt [raw ''speed_u'', raw ''wind_u'', raw ''u_component''] 0;
                 v = coalesceNumber rt [raw ''speed_v'', raw ''wind_v'', raw ''v_component''] 0
             in Inr \<lparr> id_obs = idStr, missionId = mission, timestamp = ts,
                      date = DateParse rt ts,
                      altitude = alt, temperature = temp, humidity = hum,
                      speed_u = u, speed_v = v, windSpeed = hypot u v \<rparr>))"

subsection \<open>Chronological merge\<close>

text \<open>The key \<^verbatim>\<open>obs.id || obs.timestamp\<close>: the empty string is the only falsy string.\<close>

definition mergeKey :: "DerivedObservation \<Rightarrow> string" where
  "mergeKey obs = (if id_obs obs = [] then timestamp obs else id_obs obs)"

text \<open>
  A \<^verbatim>\<open>Map\<close> keeps its entries in the order of first insertion, and \<^verbatim>\<open>set\<close> on a present
  key replaces the value in place: an association list under \<^const>\<open>AList.update\<close>.
\<close>

definition mapSetAll ::
  "(string \<times> DerivedObservation) list \<Rightarrow> DerivedObservation list \<Rightarrow> (string \<times> DerivedObservation) list" where
  "mapSetAll merged xs = fold (\<lambda>obs m. AList.update (mergeKey obs) obs m) xs merged"

text \<open>
  The difference \<^verbatim>\<open>a.date.getTime() - b.date.getTime()\<close>, NaN when either date is invalid.
  It is the comparator of the sort in \<^verbatim>\<open>mergeChronologically\<close> and the \<^verbatim>\<open>delta\<close> of the
  playback timer.
\<close>

definition dateDiff :: "DerivedObservation \<Rightarrow> DerivedObservation \<Rightarrow> jsnum" where
  "dateDiff a b =
     (case (date a, date b) of
        (Some s, Some t) \<Rightarrow> Finite (real_of_int (s - t))
      | _ \<Rightarrow> NaN)"

text \<open>
  \<^verbatim>\<open>Array.prototype.sort\<close> is stable, and a comparator result of NaN counts as \<open>+0\<close>.
  For a consistent comparator every conforming engine returns the list below (a stable
  insertion sort). When a date is invalid the comparator is not consistent and the language
  leaves the order to the engine; statements about the order therefore assume valid dates.
\<close>

fun positive :: "jsnum \<Rightarrow> bool" where
  "positive (Finite r) = (0 < r)"
| "positive PosInfinity = True"
| "positive NegInfinity = False"
| "positive NaN = False"

fun sortInsert :: "('a \<Rightarrow> 'a \<Rightarrow> jsnum) \<Rightarrow> 'a \<Rightarrow> 'a list \<Rightarrow> 'a list" where
  "sortInsert cmp x [] = [x]"
| "sortInsert cmp x (y # ys) =
     (if positive (cmp x y) then y # sortInsert cmp x ys else x # y # ys)"

definition arraySort :: "('a \<Rightarrow> 'a \<Rightarrow> jsnum) \<Rightarrow> 'a list \<Rightarrow> 'a list" where
  "arraySort cmp xs = foldr (sortInsert cmp) xs []"

definition mergeChronologically ::
  "DerivedObservation list \<Rightarrow> DerivedObservation list \<Rightarrow> DerivedObservation list" where
  "mergeChronologically current incoming =
     arraySort dateDiff (map snd (mapSetAll (mapSetAll [] current) incoming))"

subsection \<open>Synthetic generator\<close>

definition randRange :: "real \<Rightarrow> real \<Rightarrow> real \<Rightarrow> real" where
  "randRange r mn mx = r * (mx - mn) + mn"

definition easeInOut :: "runtime \<Rightarrow> real \<Rightarrow> real" where
  "easeInOut rt t = 0.5 * (1 - MathCos rt (pi * clamp t 0 1))"

text \<open>
  The callback of \<^verbatim>\<open>Array.from\<close> in \<^verbatim>\<open>buildSyntheticObservations\<close> at one index. It
  draws six random numbers, in the order of the source. \<open>startMs\<close> is
  \<^verbatim>\<open>new Date(startIso).getTime()\<close>; when it is NaN so is \<^verbatim>\<open>timestampMs\<close>, and
  \<^verbatim>\<open>toISOString\<close> throws. The observation stores the speed \<open>wind\<close> itself as
  \<open>windSpeed\<close>, and as components the products of that speed with the cosine and the
  sine of the direction; these two products are the rounded ones, since what relates the
  three stored numbers depends on the rounding.
\<close>

definition syntheticObservation ::
  "runtime \<Rightarrow> int option \<Rightarrow> int \<Rightarrow> nat \<Rightarrow> exn + DerivedObservation" where
  "syntheticObservation rt startMs count index =
     (case startMs of
        None \<Rightarrow> Inl (RangeError ''Invalid time value'')
      | Some start \<Rightarrow>
         (let durationMs = 24 * 60 * 60 * 1000;
              step = durationMs / real_of_int (max count 1);
              timestampMs = real_of_int start + real index * step
                 + randRange (MathRandom rt (6 * index)) (- 2) 2 * 60 * 1000;
              progress = real index / real_of_int (max 1 (count - 1));
              alt = 500 + easeInOut rt progress * 29000
                 + randRange (MathRandom rt (6 * index + 1)) (- 800) 800;
              temp = - 65 + progress * 40 + randRange (MathRandom rt (6 * index + 2)) (- 5) 5;
              hum = clamp (25 + MathSin rt (progress * pi * 4) * 30
                 + randRange (MathRandom rt (6 * index + 3)) (- 5) 5) 5 95;
              wind = clamp (8 + MathCos rt (progress * pi * 3) * 18
                 + randRange (MathRandom rt (6 * index + 4)) (- 3) 3) 2 60;
              direction = progress * pi * 2
                 + randRange (MathRandom rt (6 * index + 5)) (- 0.3) 0.3;
              u = roundDouble rt (MathCos rt direction * wind);
              v = roundDouble rt (MathSin rt direction * wind)
          in case toISOString rt (TimeClip timestampMs) of
               Inl e \<Rightarrow> Inl e
             | Inr ts \<Rightarrow>
                 Inr \<lparr> id_obs = ''windborne-sim-'' @ NumberToString rt timestampMs,
                       missionId = ''windborne-sim'', timestamp = ts,
                       date = TimeClip timestampMs,
                       altitude = alt, temperature = temp, humidity = hum,
                       speed_u = u, speed_v = v, windSpeed = wind \<rparr>))"

text \<open>\<^verbatim>\<open>Array.from({ length: count }, ...)\<close>: a count below one gives the empty array.\<close>

definition buildSyntheticObservations ::
  "runtime \<Rightarrow> string \<Rightarrow> int \<Rightarrow> exn + DerivedObservation list" where
  "buildSyntheticObservations rt startIso count =
     collect (map (syntheticObservation rt (DateParse rt startIso) count) [0 ..< nat count])"

subsection \<open>Stream state, cursor and polling\<close>

datatype StreamStatus = Idle | Loading | Ready | ErrorStatus

text \<open>
  The React state (\<open>observations\<close>, \<open>status\<close>, \<open>error\<close>, \<open>lastUpdated\<close>) and the refs
  (\<open>lastTimestampRef\<close>, \<open>missionRef\<close>, \<open>sinceRef\<close>, \<open>cursorRef\<close>, \<open>hasDataRef\<close>) of
  \<^verbatim>\<open>useObservationStream\<close>.
\<close>

record stream_state =
  observations :: "DerivedObservation list"
  status :: StreamStatus
  error :: "string option"
  lastUpdated :: "int option"
  lastTimestampRef :: "string option"
  missionRef :: "string option"
  sinceRef :: string
  cursorRef :: jsnum
  hasDataRef :: bool

definition isoToSeconds :: "runtime \<Rightarrow> string \<Rightarrow> jsnum" where
  "isoToSeconds rt isoString =
     (case DateParse rt isoString of
        None \<Rightarrow> NaN
      | Some t \<Rightarrow> Finite (real_of_int (t div 1000)))"

definition initialState :: "runtime \<Rightarrow> string option \<Rightarrow> string \<Rightarrow> stream_state" where
  "initialState rt mission sinceIso =
     \<lparr> observations = [], status = Idle, error = None, lastUpdated = None,
       lastTimestampRef = None, missionRef = mission, sinceRef = sinceIso,
       cursorRef = isoToSeconds rt sinceIso, hasDataRef = False \<rparr>"

definition resetState :: "runtime \<Rightarrow> stream_state \<Rightarrow> stream_state" where
  "resetState rt st =
     st \<lparr> observations := [], lastTimestampRef := None, lastUpdated := None,
          hasDataRef := False, cursorRef := isoToSeconds rt (sinceRef st) \<rparr>"

text \<open>The effect that runs when the mission filter or the lookback origin changes.\<close>

definition changeFilter :: "runtime \<Rightarrow> string option \<Rightarrow> string \<Rightarrow> stream_state \<Rightarrow> stream_state" where
  "changeFilter rt mission sinceIso st =
     (if mission \<noteq> missionRef st \<or> sinceIso \<noteq> sinceRef st
      then (resetState rt (st \<lparr> missionRef := mission, sinceRef := sinceIso,
                                cursorRef := isoToSeconds rt sinceIso \<rparr>)) \<lparr> status := Loading \<rparr>
      else st)"

definition applyCursorAdvance ::
  "stream_state \<Rightarrow> DerivedObservation list \<Rightarrow> jsval \<Rightarrow> stream_state" where
  "applyCursorAdvance st normalized nextSince =
     (if normalized \<noteq> [] then
        (let lst = last normalized
         in st \<lparr> lastTimestampRef := Some (timestamp lst),
                 cursorRef := (case date lst of
                                 None \<Rightarrow> NaN
                               | Some t \<Rightarrow> Finite (real_of_int (t div 1000 + 1))) \<rparr>)
      else (case nextSince of
              JNum n \<Rightarrow> st \<lparr> cursorRef := n \<rparr>
            | _ \<Rightarrow> st))"

text \<open>
  What one request of \<^verbatim>\<open>fetchBatch\<close> meets. \<open>Unavailable\<close>: the function throws before
  it normalises anything (missing credentials, a rejected \<^verbatim>\<open>fetch\<close>, a status that is not
  ok, a body that does not parse). \<open>Payload\<close>: the parsed body, as its field
  \<^verbatim>\<open>observations\<close> (\<open>None\<close> when it is not an array) and its field \<^verbatim>\<open>next_since\<close>.
\<close>

datatype fetch_result =
    Unavailable exn
  | Payload "RawObservation list option" jsval

definition fetchBatch ::
  "runtime \<Rightarrow> stream_state \<Rightarrow> fetch_result \<Rightarrow> exn + (DerivedObservation list \<times> stream_state)" where
  "fetchBatch rt st res =
     (case res of
        Unavailable e \<Rightarrow> Inl e
      | Payload obs nextSince \<Rightarrow>
         (let rawList = (case obs of Some xs \<Rightarrow> xs | None \<Rightarrow> [])
          in case collect (map (\<lambda>(i, raw). normalizeObservation rt i raw) (enumerate 0 rawList)) of
               Inl e \<Rightarrow> Inl e
             | Inr normalized \<Rightarrow> Inr (normalized, applyCursorAdvance st normalized nextSince)))"

definition ingest :: "int \<Rightarrow> stream_state \<Rightarrow> DerivedObservation list \<Rightarrow> stream_state" where
  "ingest now st incoming =
     (if incoming = [] then st
      else st \<lparr> observations := mergeChronologically (observations st) incoming,
                lastUpdated := Some now, hasDataRef := True \<rparr>)"

definition fallbackMessage :: string where
  "fallbackMessage =
     ''WindBorne API unavailable '' @ [CHR 0xE2, CHR 0x80, CHR 0x94]
       @ '' playing a simulated mission inspired by recent flights.''"

text \<open>
  \<^verbatim>\<open>pull\<close>, one poll. The result pairs the state it leaves with the exception that
  escapes it, if any: the synthetic generator runs inside the \<^verbatim>\<open>catch\<close> block, before any
  state is set there.
\<close>

definition pull ::
  "runtime \<Rightarrow> int \<Rightarrow> int \<Rightarrow> stream_state \<Rightarrow> fetch_result \<Rightarrow> stream_state \<times> exn option" where
  "pull rt limit now st res =
     (let st1 = st \<lparr> status := (if status st = Ready then Ready else Loading) \<rparr>
      in case fetchBatch rt st1 res of
           Inr (batch, st2) \<Rightarrow> ((ingest now st2 batch) \<lparr> status := Ready, error := None \<rparr>, None)
         | Inl err \<Rightarrow>
            (if \<not> hasDataRef st1 then
               (case buildSyntheticObservations rt (sinceRef st1) limit of
                  Inl e \<Rightarrow> (st1, Some e)
                | Inr fallback \<Rightarrow>
                    (st1 \<lparr> observations := fallback, lastUpdated := Some now,
                           hasDataRef := True, status := Ready,
                           error := Some fallbackMessage \<rparr>, None))
             else (st1 \<lparr> error := Some (message err), status := ErrorStatus \<rparr>, None)))"

section \<open>Playback (useObservationPlayback.ts)\<close>

definition MIN_DELAY_MS :: real where
  "MIN_DELAY_MS = 400"

definition MAX_DELAY_MS :: real where
  "MAX_DELAY_MS = 10000"

definition safeSpeed :: "real \<Rightarrow> real" where
  "safeSpeed speed = max 0.25 speed"

text \<open>
  The timer effect: \<open>Inr None\<close> when it clears the timer and schedules nothing,
  \<open>Inr (Some d)\<close> when it calls \<^verbatim>\<open>setTimeout\<close> with the delay \<open>d\<close>. Reading
  \<^verbatim>\<open>current.date\<close> throws a TypeError when \<^verbatim>\<open>observations[index]\<close> is undefined.
\<close>

definition timerEffect ::
  "DerivedObservation list \<Rightarrow> int \<Rightarrow> bool \<Rightarrow> real \<Rightarrow> exn + jsnum option" where
  "timerEffect obs index isPlaying speed =
     (if \<not> isPlaying \<or> length obs < 2 then Inr None
      else case at_index obs (index + 1) of
             None \<Rightarrow> Inr None
           | Some next \<Rightarrow>
              (case at_index obs index of
                 None \<Rightarrow> Inl (TypeError ''Cannot read properties of undefined'')
               | Some current \<Rightarrow>
                  (case dateDiff next current of
                     Finite delta \<Rightarrow>
                       Inr (Some (Finite (clamp (delta / safeSpeed speed) MIN_DELAY_MS MAX_DELAY_MS)))
                   | _ \<Rightarrow> Inr (Some NaN))))"

text \<open>The callback of the timer: \<^verbatim>\<open>setIndex(prev => Math.min(prev + 1, length - 1))\<close>.\<close>

definition timerAdvance :: "'a list \<Rightarrow> int \<Rightarrow> int" where
  "timerAdvance obs prev = min (prev + 1) (int (length obs) - 1)"

text \<open>The effect on \<^verbatim>\<open>observations.length\<close>, run when the length of the slice changes.\<close>

definition lengthEffect :: "'a list \<Rightarrow> int \<Rightarrow> int" where
  "lengthEffect obs current =
     (if length obs = 0 then 0 else min current (int (length obs) - 1))"

definition setProgress :: "'a list \<Rightarrow> real \<Rightarrow> int \<Rightarrow> int" where
  "setProgress obs v index =
     (if length obs = 0 then index
      else MathRound (clamp v 0 1 * real_of_int (int (length obs) - 1)))"

definition stepBackward :: "int \<Rightarrow> int" where
  "stepBackward prev = max 0 (prev - 1)"

definition stepForward :: "'a list \<Rightarrow> int \<Rightarrow> int" where
  "stepForward obs prev =
     (if length obs = 0 then prev else min (prev + 1) (int (length obs) - 1))"

text \<open>
  The operations that change the playback index, and one step of each on the pair of the
  slice and the index. The timer callback runs only while a timer is pending, that is when
  the timer effect has scheduled one for the current slice and index (every change of the
  slice, the index, \<^verbatim>\<open>isPlaying\<close> or the speed clears the pending timer first).
\<close>

datatype playback_op =
    TimerFires bool real
  | StepForward
  | StepBackward
  | SetProgress real
  | SliceChange "DerivedObservation list"

definition timerPending :: "DerivedObservation list \<Rightarrow> int \<Rightarrow> bool \<Rightarrow> real \<Rightarrow> bool" where
  "timerPending obs index isPlaying speed =
     (case timerEffect obs index isPlaying speed of
        Inr (Some d) \<Rightarrow> True
      | _ \<Rightarrow> False)"

fun playbackStep ::
  "playback_op \<Rightarrow> DerivedObservation list \<times> int \<Rightarrow> DerivedObservation list \<times> int" where
  "playbackStep (TimerFires isPlaying speed) (obs, i) =
     (if timerPending obs i isPlaying speed then (obs, timerAdvance obs i) else (obs, i))"
| "playbackStep StepForward (obs, i) = (obs, stepForward obs i)"
| "playbackStep StepBackward (obs, i) = (obs, stepBackward i)"
| "playbackStep (SetProgress v) (obs, i) = (obs, setProgress obs v i)"
| "playbackStep (SliceChange obs') (obs, i) =
     (obs', if length obs' = length obs then i else lengthEffect obs' i)"

section \<open>Notions used in the statements\<close>

text \<open>
  The invariant of the playback index: it is never negative, and it is below the length of
  a non-empty slice.
\<close>

definition indexInBounds :: "'a list \<times> int \<Rightarrow> bool" where
  "indexInBounds p = (0 \<le> snd p \<and> (fst p \<noteq> [] \<longrightarrow> snd p < int (length (fst p))))"

text \<open>Lists of observations whose dates are all valid, and the time value of such a date.\<close>

definition validDates :: "DerivedObservation list \<Rightarrow> bool" where
  "validDates xs = (\<forall>x \<in> set xs. date x \<noteq> None)"

definition instant :: "DerivedObservation \<Rightarrow> int" where
  "instant x = the (date x)"

text \<open>
  The invariant of the Series: valid dates, ascending by instant, and no merge key twice.
\<close>

definition seriesInvariant :: "DerivedObservation list \<Rightarrow> bool" where
  "seriesInvariant xs =
     (validDates xs \<and> sorted (map instant xs) \<and> distinct (map mergeKey xs))"

text \<open>Every entry of the map sits under the merge key of its observation.\<close>

definition wellKeyed :: "(string \<times> DerivedObservation) list \<Rightarrow> bool" where
  "wellKeyed m = (\<forall>p \<in> set m. fst p = mergeKey (snd p))"

text \<open>The entries of the merged map, read as a finite map: later writes win.\<close>

definition writes :: "DerivedObservation list \<Rightarrow> (string \<rightharpoonup> DerivedObservation) \<Rightarrow> (string \<rightharpoonup> DerivedObservation)" where
  "writes xs f = fold (\<lambda>obs g. g(mergeKey obs \<mapsto> obs)) xs f"

text \<open>
  The stream state never holds observations while \<open>hasDataRef\<close> is unset.
\<close>

definition dataFlagged :: "stream_state \<Rightarrow> bool" where
  "dataFlagged st = (observations st \<noteq> [] \<longrightarrow> hasDataRef st)"


text \<open>
  A runtime whose cosine, sine and products are the exact ones: arithmetic without
  rounding.
\<close>

definition exactArithmetic :: "runtime \<Rightarrow> bool" where
  "exactArithmetic rt =
     (\<forall>x. roundDouble rt x = x \<and> MathCos rt x = cos x \<and> MathSin rt x = sin x)"

text \<open>
  The rule of the specification for a numeric field: the first candidate whose numeric
  value is finite, and the fallback when there is none.
\<close>

definition finiteNumber :: "jsnum \<Rightarrow> bool" where
  "finiteNumber n = (case n of Finite r \<Rightarrow> True | _ \<Rightarrow> False)"

definition firstFinite :: "runtime \<Rightarrow> jsval list \<Rightarrow> real \<Rightarrow> real" where
  "firstFinite rt candidates fallback =
     (case find (\<lambda>v. finiteNumber (ToNumber rt v)) candidates of
        None \<Rightarrow> fallback
      | Some v \<Rightarrow> (case ToNumber rt v of Finite r \<Rightarrow> r | _ \<Rightarrow> fallback))"

section \<open>Sample data for the worked instances\<close>

text \<open>
  A runtime with fixed answers: strings of decimal digits convert to their value, the
  empty string to zero, every other string to NaN; every date string parses to the epoch;
  \<^verbatim>\<open>Math.random\<close> always draws one half; cosine, sine and products are exact.
\<close>

definition digitValue :: "char \<Rightarrow> nat" where
  "digitValue c = of_char c - 48"

definition isDigit :: "char \<Rightarrow> bool" where
  "isDigit c = (48 \<le> (of_char c :: nat) \<and> (of_char c :: nat) \<le> 57)"

definition decimalToNumber :: "string \<Rightarrow> jsnum" where
  "decimalToNumber s =
     (if list_all isDigit s
      then Finite (real (foldl (\<lambda>acc c. 10 * acc + digitValue c) 0 s))
      else NaN)"

definition sampleRuntime :: runtime where
  "sampleRuntime =
     \<lparr> StringToNumber = decimalToNumber,
       NumberToString = (\<lambda>r. ''0''),
       DateParse = (\<lambda>s. Some 0),
       DateToISOString = (\<lambda>t. ''1970-01-01T00:00:00.000Z''),
       DateNow = (\<lambda>i. 1700000000000),
       cryptoRandomId = (\<lambda>i. ''00000000-0000-4000-8000-000000000000''),
       MathRandom = (\<lambda>i. 1 / 2),
       MathCos = cos,
       MathSin = sin,
       roundDouble = (\<lambda>x. x) \<rparr>"

text \<open>
  Rounding to the nearest double, ties to the even one, for magnitudes from 1 up to 32:
  there the doubles are the multiples of 1/2^48 in [16, 32), of 1/2^49 in [8, 16), and so
  on down to 1/2^52 in [1, 2). Other magnitudes do not occur in the instance below and
  are left as they are.
\<close>

definition nearestEven :: "real \<Rightarrow> real \<Rightarrow> real" where
  "nearestEven g x =
     (let n = \<lfloor>x / g\<rfloor>; f = x / g - real_of_int n
      in (if f < 1 / 2 then real_of_int n
          else if 1 / 2 < f then real_of_int (n + 1)
          else if even n then real_of_int n else real_of_int (n + 1)) * g)"

definition binary64 :: "real \<Rightarrow> real" where
  "binary64 x =
     (if 16 \<le> \<bar>x\<bar> \<and> \<bar>x\<bar> < 32 then nearestEven (1 / 2 ^ 48) x
      else if 8 \<le> \<bar>x\<bar> \<and> \<bar>x\<bar> < 16 then nearestEven (1 / 2 ^ 49) x
      else if 4 \<le> \<bar>x\<bar> \<and> \<bar>x\<bar> < 8 then nearestEven (1 / 2 ^ 50) x
      else if 2 \<le> \<bar>x\<bar> \<and> \<bar>x\<bar> < 4 then nearestEven (1 / 2 ^ 51) x
      else if 1 \<le> \<bar>x\<bar> \<and> \<bar>x\<bar> < 2 then nearestEven (1 / 2 ^ 52) x
      else x)"

text \<open>
  A runtime that rounds. Its sixth draw of \<^verbatim>\<open>Math.random\<close> is 39/128, which makes the
  direction of the first synthetic observation -15/128, in the doubles of the program as
  in exact arithmetic; every other draw is one half. At that direction its cosine and
  sine are the doubles nearest to the exact values,
  8945422472166536 / 2^53 and -8424935215189222 / 2^56.
\<close>

definition roundingRuntime :: runtime where
  "roundingRuntime =
     sampleRuntime
       \<lparr> MathRandom := (\<lambda>i. if i = 5 then 39 / 128 else 1 / 2),
         MathCos := (\<lambda>x. if x = - (15 / 128) then 8945422472166536 / 2 ^ 53 else cos x),
         MathSin := (\<lambda>x. if x = - (15 / 128) then - (8424935215189222 / 2 ^ 56) else sin x),
         roundDouble := binary64 \<rparr>"

definition sampleObs :: "string \<Rightarrow> string \<Rightarrow> int \<Rightarrow> DerivedObservation" where
  "sampleObs i ts t =
     \<lparr> id_obs = i, missionId = ''unknown'', timestamp = ts, date = Some t,
       altitude = 0, temperature = 0, humidity = 0, speed_u = 0, speed_v = 0, windSpeed = 0 \<rparr>"

definition sampleState :: "DerivedObservation list \<Rightarrow> stream_state" where
  "sampleState xs =
     \<lparr> observations = xs, status = (if xs = [] then Idle else Ready), error = None,
       lastUpdated = None, lastTimestampRef = None, missionRef = None,
       sinceRef = ''1970-01-01T00:00:00.000Z'', cursorRef = Finite 0,
       hasDataRef = (xs \<noteq> []) \<rparr>"

text \<open>A raw record from its fields: every other key is absent.\<close>

fun rawRecord :: "(string \<times> jsval) list \<Rightarrow> RawObservation" where
  "rawRecord [] k = JUndefined"
| "rawRecord ((k', v) # kvs) k = (if k = k' then v else rawRecord kvs k)"


section \<open>Properties of playback\<close>

lemma clamp_bounds: "mn \<le> mx \<Longrightarrow> mn \<le> clamp v mn mx \<and> clamp v mn mx \<le> mx"
  by (simp add: clamp_def)

lemma dateDiff_valid:
  "date a = Some s \<Longrightarrow> date b = Some t \<Longrightarrow> dateDiff a b = Finite (real_of_int (s - t))"
  by (simp add: dateDiff_def)

lemma timerEffect_delay:
  assumes "isPlaying" and "2 \<le> length S" and "0 \<le> index" and "index + 1 < int (length S)"
    and "date (S ! nat index) = Some a" and "date (S ! nat (index + 1)) = Some b"
  shows "timerEffect S index isPlaying speed =
    Inr (Some (Finite (clamp (real_of_int (b - a) / max 0.25 speed) 400 10000)))"
proof -
  have nxt: "at_index S (index + 1) = Some (S ! nat (index + 1))"
    using assms(3,4) by (simp add: at_index_def)
  have cur: "at_index S index = Some (S ! nat index)"
    using assms(3,4) by (simp add: at_index_def)
  have d: "dateDiff (S ! nat (index + 1)) (S ! nat index) = Finite (real_of_int (b - a))"
    using assms(5,6) by (rule_tac dateDiff_valid)
  show ?thesis
    using assms(1,2) by (simp add: timerEffect_def nxt cur d safeSpeed_def MIN_DELAY_MS_def MAX_DELAY_MS_def)
qed

lemma MathRound_bounds:
  assumes "0 \<le> x" and "x \<le> real_of_int n"
  shows "0 \<le> MathRound x \<and> MathRound x \<le> n"
proof -
  have "0 \<le> \<lfloor>x + 1 / 2\<rfloor>" using assms(1) by simp
  moreover have "x + 1 / 2 < real_of_int (n + 1)" using assms(2) by simp
  then have "\<lfloor>x + 1 / 2\<rfloor> < n + 1" by (simp only: floor_less_iff)
  ultimately show ?thesis by (simp add: MathRound_def)
qed

lemma setProgress_bounds:
  assumes "obs \<noteq> []"
  shows "0 \<le> setProgress obs p i \<and> setProgress obs p i \<le> int (length obs) - 1"
proof -
  let ?n = "int (length obs) - 1"
  have n: "0 \<le> real_of_int ?n" using assms by (cases obs) simp_all
  have c: "0 \<le> clamp p 0 1 \<and> clamp p 0 1 \<le> 1" by (rule clamp_bounds) simp
  have lo: "0 \<le> clamp p 0 1 * real_of_int ?n" using c n by simp
  have hi: "clamp p 0 1 * real_of_int ?n \<le> real_of_int ?n"
    using c n mult_left_le_one_le[of "real_of_int ?n" "clamp p 0 1"] by (simp add: mult.commute)
  show ?thesis using MathRound_bounds[OF lo hi] assms by (simp add: setProgress_def)
qed

lemma playbackStep_preserves:
  assumes "indexInBounds (obs, i)"
  shows "indexInBounds (playbackStep opn (obs, i))"
proof (cases opn)
  case (TimerFires isPlaying speed)
  show ?thesis
  proof (cases "timerPending obs i isPlaying speed")
    case True
    then have "2 \<le> length obs"
      by (auto simp: timerPending_def timerEffect_def split: if_splits)
    then show ?thesis using assms TimerFires True
      by (auto simp: indexInBounds_def timerAdvance_def)
  next
    case False
    then show ?thesis using assms TimerFires by simp
  qed
next
  case StepForward
  then show ?thesis using assms
    by (cases obs) (auto simp: indexInBounds_def stepForward_def)
next
  case StepBackward
  then show ?thesis using assms by (auto simp: indexInBounds_def stepBackward_def)
next
  case (SetProgress v)
  show ?thesis
  proof (cases "obs = []")
    case True
    then show ?thesis using assms SetProgress by (simp add: indexInBounds_def setProgress_def)
  next
    case False
    then show ?thesis using setProgress_bounds[OF False, of v i] SetProgress
      by (simp add: indexInBounds_def)
  qed
next
  case (SliceChange obs')
  then show ?thesis using assms
    by (cases obs') (auto simp: indexInBounds_def lengthEffect_def)
qed

text \<open>
  C7. While playing on a slice with at least two elements, at an index that is not the
  last, the timer is scheduled after
  clamp((instant(S[index+1]) - instant(S[index])) / max(0.25, speed), 400, 10000)
  milliseconds. For the timestamps 0 s, 10 s, 30 s the delays before clamping are 10000 and
  20000 at speed 1 and half of that at speed 2, and the timer gets them clamped into
  [400, 10000].
\<close>

theorem C7_scheduled_delay:
  "(isPlaying \<and> 2 \<le> length S \<and> 0 \<le> index \<and> index + 1 < int (length S)
      \<and> date (S ! nat index) = Some a \<and> date (S ! nat (index + 1)) = Some b
    \<longrightarrow> timerEffect S index isPlaying speed =
          Inr (Some (Finite (clamp (real_of_int (b - a) / max 0.25 speed) 400 10000))))
   \<and> (map date T = [Some 0, Some 10000, Some 30000]
    \<longrightarrow> real_of_int (10000 - 0) / safeSpeed 1 = 10000
      \<and> real_of_int (30000 - 10000) / safeSpeed 1 = 20000
      \<and> real_of_int (10000 - 0) / safeSpeed 2 = 5000
      \<and> real_of_int (30000 - 10000) / safeSpeed 2 = 10000
      \<and> timerEffect T 0 True 1 = Inr (Some (Finite 10000))
      \<and> timerEffect T 1 True 1 = Inr (Some (Finite 10000))
      \<and> timerEffect T 0 True 2 = Inr (Some (Finite 5000))
      \<and> timerEffect T 1 True 2 = Inr (Some (Finite 10000)))"
proof (intro conjI impI)
  assume "isPlaying \<and> 2 \<le> length S \<and> 0 \<le> index \<and> index + 1 < int (length S)
      \<and> date (S ! nat index) = Some a \<and> date (S ! nat (index + 1)) = Some b"
  then show "timerEffect S index isPlaying speed =
      Inr (Some (Finite (clamp (real_of_int (b - a) / max 0.25 speed) 400 10000)))"
    by (intro timerEffect_delay) simp_all
next
  assume T: "map date T = [Some 0, Some 10000, Some 30000]"
  then obtain x y z where xyz: "T = [x, y, z]" "date x = Some 0" "date y = Some 10000"
    "date z = Some 30000"
    by auto
  have len: "2 \<le> length T" "(0::int) + 1 < int (length T)" "(1::int) + 1 < int (length T)"
    using xyz(1) by simp_all
  have d0: "date (T ! nat 0) = Some 0" and d1: "date (T ! nat (0 + 1)) = Some 10000"
    and d1': "date (T ! nat 1) = Some 10000" and d2: "date (T ! nat (1 + 1)) = Some 30000"
    using xyz by simp_all
  show "timerEffect T 0 True 1 = Inr (Some (Finite 10000))"
    using timerEffect_delay[OF TrueI len(1) order_refl len(2) d0 d1, of 1] by (simp add: clamp_def)
  show "timerEffect T 1 True 1 = Inr (Some (Finite 10000))"
    using timerEffect_delay[OF TrueI len(1) zero_le_one len(3) d1' d2, of 1] by (simp add: clamp_def)
  show "timerEffect T 0 True 2 = Inr (Some (Finite 5000))"
    using timerEffect_delay[OF TrueI len(1) order_refl len(2) d0 d1, of 2] by (simp add: clamp_def)
  show "timerEffect T 1 True 2 = Inr (Some (Finite 10000))"
    using timerEffect_delay[OF TrueI len(1) zero_le_one len(3) d1' d2, of 2] by (simp add: clamp_def)
qed (simp_all add: safeSpeed_def)

theorem C7_scheduled_delay_witness:
  "2 \<le> length [sampleObs ''a'' ''t0'' 0, sampleObs ''b'' ''t1'' 10000, sampleObs ''c'' ''t2'' 30000]
   \<and> date ([sampleObs ''a'' ''t0'' 0, sampleObs ''b'' ''t1'' 10000, sampleObs ''c'' ''t2'' 30000] ! nat 1)
        = Some 10000
   \<and> date ([sampleObs ''a'' ''t0'' 0, sampleObs ''b'' ''t1'' 10000, sampleObs ''c'' ''t2'' 30000] ! nat (1 + 1))
        = Some 30000
   \<and> map date [sampleObs ''a'' ''t0'' 0, sampleObs ''b'' ''t1'' 10000, sampleObs ''c'' ''t2'' 30000]
        = [Some 0, Some 10000, Some 30000]
   \<and> timerEffect [sampleObs ''a'' ''t0'' 0, sampleObs ''b'' ''t1'' 10000, sampleObs ''c'' ''t2'' 30000]
        1 True 4 = Inr (Some (Finite 5000))
   \<and> timerEffect [sampleObs ''a'' ''t0'' 0, sampleObs ''b'' ''t1'' 10000, sampleObs ''c'' ''t2'' 30000]
        0 True 2 = Inr (Some (Finite 5000))"
  using C7_scheduled_delay[of True
      "[sampleObs ''a'' ''t0'' 0, sampleObs ''b'' ''t1'' 10000, sampleObs ''c'' ''t2'' 30000]"
      1 10000 30000 4
      "[sampleObs ''a'' ''t0'' 0, sampleObs ''b'' ''t1'' 10000, sampleObs ''c'' ''t2'' 30000]"]
  by (simp add: sampleObs_def clamp_def)

text \<open>
  C8. The playback index starts within bounds, every playback operation (the timer
  callback, stepForward, stepBackward, setProgress, a change of the slice) keeps it within
  bounds, so it is within bounds after any sequence of them: 0 \<le> index < length(slice)
  whenever the slice is not empty. When the slice is replaced by a non-empty one of length
  n while the index is i, the index becomes min(i, n - 1): a shorter slice keeps the
  position where it can, and does not reset it to 0.
\<close>

theorem C8_index_in_bounds:
  "indexInBounds (obs0, 0)
   \<and> (indexInBounds (obs, i) \<longrightarrow> indexInBounds (playbackStep opn (obs, i)))
   \<and> indexInBounds (fold playbackStep ops (obs0, 0))
   \<and> (indexInBounds (obs, i) \<and> obs \<noteq> [] \<longrightarrow> 0 \<le> i \<and> i < int (length obs))
   \<and> (indexInBounds (obs, i) \<and> obs' \<noteq> [] \<longrightarrow>
        playbackStep (SliceChange obs') (obs, i) = (obs', min i (int (length obs') - 1)))"
proof (intro conjI impI)
  show start: "indexInBounds (obs0, 0)" by (cases obs0) (simp_all add: indexInBounds_def)
  have "indexInBounds p \<Longrightarrow> indexInBounds (fold playbackStep ops p)" for p
  proof (induction ops arbitrary: p)
    case Nil
    then show ?case by simp
  next
    case (Cons a ops)
    obtain xs k where p: "p = (xs, k)" by (cases p)
    have "indexInBounds (playbackStep a p)"
      using Cons.prems playbackStep_preserves[of xs k a] by (simp add: p)
    then show ?case using Cons.IH by simp
  qed
  then show "indexInBounds (fold playbackStep ops (obs0, 0))" using start by blast
next
  assume "indexInBounds (obs, i)"
  then show "indexInBounds (playbackStep opn (obs, i))" by (rule playbackStep_preserves)
next
  assume "indexInBounds (obs, i) \<and> obs \<noteq> []"
  then show "0 \<le> i" and "i < int (length obs)" by (simp_all add: indexInBounds_def)
next
  assume "indexInBounds (obs, i) \<and> obs' \<noteq> []"
  then show "playbackStep (SliceChange obs') (obs, i) = (obs', min i (int (length obs') - 1))"
    by (cases obs) (auto simp: lengthEffect_def indexInBounds_def)
qed

theorem C8_index_in_bounds_witness:
  "indexInBounds (replicate 10 (sampleObs ''a'' ''t'' 0), 7)
   \<and> replicate 10 (sampleObs ''a'' ''t'' 0) \<noteq> []
   \<and> replicate 4 (sampleObs ''a'' ''t'' 0) \<noteq> []
   \<and> indexInBounds (playbackStep StepForward (replicate 10 (sampleObs ''a'' ''t'' 0), 7))
   \<and> (0::int) \<le> 7 \<and> (7::int) < int (length (replicate 10 (sampleObs ''a'' ''t'' 0)))
   \<and> playbackStep (SliceChange (replicate 4 (sampleObs ''a'' ''t'' 0)))
        (replicate 10 (sampleObs ''a'' ''t'' 0), 7)
      = (replicate 4 (sampleObs ''a'' ''t'' 0), 3)"
  using C8_index_in_bounds[of "[]" "replicate 10 (sampleObs ''a'' ''t'' 0)" 7 StepForward "[]"
      "replicate 4 (sampleObs ''a'' ''t'' 0)"]
  by (simp add: indexInBounds_def)

text \<open>
  C10. For every real argument p, also below 0 or above 1, setProgress on a non-empty
  slice sets the index to round(clamp(p, 0, 1) * (length - 1)), which lies in
  [0, length - 1]; on an empty slice it leaves the index as it is.
\<close>

theorem C10_setProgress_clamped:
  "(obs \<noteq> [] \<longrightarrow>
      setProgress obs p i = MathRound (clamp p 0 1 * real_of_int (int (length obs) - 1))
      \<and> 0 \<le> setProgress obs p i \<and> setProgress obs p i \<le> int (length obs) - 1)
   \<and> (obs = [] \<longrightarrow> setProgress obs p i = i)"
proof (intro conjI impI)
  assume ne: "obs \<noteq> []"
  then show "setProgress obs p i = MathRound (clamp p 0 1 * real_of_int (int (length obs) - 1))"
    by (simp add: setProgress_def)
  show "0 \<le> setProgress obs p i" and "setProgress obs p i \<le> int (length obs) - 1"
    using setProgress_bounds[OF ne] by simp_all
next
  assume "obs = []"
  then show "setProgress obs p i = i" by (simp add: setProgress_def)
qed

theorem C10_setProgress_clamped_witness:
  "[1, 2, 3, 4, 5 :: nat] \<noteq> []
   \<and> setProgress [1, 2, 3, 4, 5 :: nat] (17 / 10) 2 = 4
   \<and> setProgress [1, 2, 3, 4, 5 :: nat] (- 3) 2 = 0
   \<and> setProgress [1, 2, 3, 4, 5 :: nat] (1 / 2) 0 = 2
   \<and> setProgress ([] :: nat list) (1 / 2) 6 = 6"
  using C10_setProgress_clamped[of "[1, 2, 3, 4, 5 :: nat]" "17 / 10" 2]
    C10_setProgress_clamped[of "[1, 2, 3, 4, 5 :: nat]" "- 3" 2]
    C10_setProgress_clamped[of "[1, 2, 3, 4, 5 :: nat]" "1 / 2" 0]
    C10_setProgress_clamped[of "[] :: nat list" "1 / 2" 6]
  by (simp add: clamp_def MathRound_def)

section \<open>Properties of the chronological merge\<close>

subsection \<open>The sort\<close>

lemma set_sortInsert: "set (sortInsert cmp x ys) = insert x (set ys)"
  by (induction ys) auto

lemma set_arraySort: "set (arraySort cmp xs) = set xs"
  by (induction xs) (simp_all add: arraySort_def set_sortInsert)



lemma distinct_map_sortInsert:
  "distinct (map k (sortInsert cmp x ys)) = distinct (map k (x # ys))"
  by (induction ys) (auto simp: set_sortInsert)

lemma distinct_map_arraySort: "distinct (map k (arraySort cmp xs)) = distinct (map k xs)"
proof (induction xs)
  case Nil
  show ?case by (simp add: arraySort_def)
next
  case (Cons x xs)
  have "arraySort cmp (x # xs) = sortInsert cmp x (arraySort cmp xs)"
    by (simp add: arraySort_def)
  then show ?case
    using Cons.IH by (simp add: distinct_map_sortInsert set_arraySort)
qed

lemma positive_dateDiff:
  "date x \<noteq> None \<Longrightarrow> date y \<noteq> None \<Longrightarrow> positive (dateDiff x y) = (\<not> instant x \<le> instant y)"
  by (auto simp: dateDiff_def instant_def)

lemma sortInsert_insort_key:
  "date x \<noteq> None \<Longrightarrow> validDates ys \<Longrightarrow> sortInsert dateDiff x ys = insort_key instant x ys"
  by (induction ys) (auto simp: positive_dateDiff validDates_def)

lemma arraySort_sort_key: "validDates xs \<Longrightarrow> arraySort dateDiff xs = sort_key instant xs"
proof (induction xs)
  case Nil
  show ?case by (simp add: arraySort_def)
next
  case (Cons x xs)
  then have v: "date x \<noteq> None" "validDates xs" by (simp_all add: validDates_def)
  have "validDates (sort_key instant xs)" using v(2) by (simp add: validDates_def)
  then have "sortInsert dateDiff x (sort_key instant xs) = insort_key instant x (sort_key instant xs)"
    using v(1) by (rule_tac sortInsert_insort_key)
  then show ?case using Cons.IH[OF v(2)] by (simp add: arraySort_def)
qed

lemma sorted_arraySort: "validDates xs \<Longrightarrow> sorted (map instant (arraySort dateDiff xs))"
  by (simp add: arraySort_sort_key)

lemma arraySort_sorted_id:
  "validDates xs \<Longrightarrow> sorted (map instant xs) \<Longrightarrow> arraySort dateDiff xs = xs"
  by (simp add: arraySort_sort_key sort_key_id_if_sorted)

subsection \<open>The map\<close>

lemma mapSetAll_Nil: "mapSetAll m [] = m"
  by (simp add: mapSetAll_def)

lemma mapSetAll_Cons: "mapSetAll m (x # xs) = mapSetAll (AList.update (mergeKey x) x m) xs"
  by (simp add: mapSetAll_def)

lemma set_update_subset: "set (AList.update k v m) \<subseteq> insert (k, v) (set m)"
  by (induction m) auto

lemma wellKeyed_update: "wellKeyed m \<Longrightarrow> wellKeyed (AList.update (mergeKey x) x m)"
  using set_update_subset[of "mergeKey x" x m] by (fastforce simp: wellKeyed_def)

lemma wellKeyed_mapSetAll: "wellKeyed m \<Longrightarrow> wellKeyed (mapSetAll m xs)"
  by (induction xs arbitrary: m) (simp_all add: mapSetAll_Nil mapSetAll_Cons wellKeyed_update)

lemma distinct_mapSetAll: "distinct (map fst m) \<Longrightarrow> distinct (map fst (mapSetAll m xs))"
  by (induction xs arbitrary: m) (simp_all add: mapSetAll_Nil mapSetAll_Cons distinct_update)

lemma keys_mapSetAll: "fst ` set (mapSetAll m xs) = fst ` set m \<union> mergeKey ` set xs"
  by (induction xs arbitrary: m) (auto simp: mapSetAll_Nil mapSetAll_Cons dom_update)

lemma values_mapSetAll: "snd ` set (mapSetAll m xs) \<subseteq> snd ` set m \<union> set xs"
proof (induction xs arbitrary: m)
  case Nil
  show ?case by (simp add: mapSetAll_Nil)
next
  case (Cons x xs)
  have "snd ` set (AList.update (mergeKey x) x m) \<subseteq> insert x (snd ` set m)"
    using set_update_subset[of "mergeKey x" x m] by force
  moreover have "snd ` set (mapSetAll (AList.update (mergeKey x) x m) xs)
      \<subseteq> snd ` set (AList.update (mergeKey x) x m) \<union> set xs"
    by (rule Cons.IH)
  ultimately have "snd ` set (mapSetAll (AList.update (mergeKey x) x m) xs)
      \<subseteq> snd ` set m \<union> insert x (set xs)"
    by blast
  then show ?case by (simp add: mapSetAll_Cons)
qed


lemma map_key_values: "wellKeyed m \<Longrightarrow> map mergeKey (map snd m) = map fst m"
  by (induction m) (simp_all add: wellKeyed_def)

lemma map_of_mapSetAll: "map_of (mapSetAll m xs) = writes xs (map_of m)"
  by (induction xs arbitrary: m) (simp_all add: mapSetAll_def writes_def update_conv')

lemma writes_map_add: "writes xs f = f ++ writes xs Map.empty"
proof (induction xs arbitrary: f)
  case Nil
  show ?case by (simp add: writes_def)
next
  case (Cons x xs)
  have "writes (x # xs) f = writes xs (f(mergeKey x \<mapsto> x))" by (simp add: writes_def)
  also have "\<dots> = f(mergeKey x \<mapsto> x) ++ writes xs Map.empty" by (rule Cons.IH)
  also have "\<dots> = f ++ (Map.empty(mergeKey x \<mapsto> x) ++ writes xs Map.empty)"
    by (simp add: map_add_upd_left fun_eq_iff map_add_def split: option.splits)
  also have "Map.empty(mergeKey x \<mapsto> x) ++ writes xs Map.empty = writes xs (Map.empty(mergeKey x \<mapsto> x))"
    by (rule Cons.IH[symmetric])
  also have "\<dots> = writes (x # xs) Map.empty" by (simp add: writes_def)
  finally show ?case .
qed

lemma writes_twice: "writes xs (writes xs f) = writes xs f"
proof -
  have "writes xs (writes xs f) = (f ++ writes xs Map.empty) ++ writes xs Map.empty"
    using writes_map_add[of xs "writes xs f"] writes_map_add[of xs f] by simp
  also have "\<dots> = f ++ writes xs Map.empty"
    by (auto simp: fun_eq_iff map_add_def split: option.splits)
  finally show ?thesis using writes_map_add[of xs f] by simp
qed

lemma keys_unchanged:
  "mergeKey ` set xs \<subseteq> fst ` set m \<Longrightarrow> map fst (mapSetAll m xs) = map fst m"
proof (induction xs arbitrary: m)
  case Nil
  show ?case by (simp add: mapSetAll_Nil)
next
  case (Cons x xs)
  have k: "map fst (AList.update (mergeKey x) x m) = map fst m"
    using Cons.prems by (simp add: update_keys)
  then have "fst ` set (AList.update (mergeKey x) x m) = fst ` set m"
    by (metis list.set_map)
  then show ?case using Cons.IH[of "AList.update (mergeKey x) x m"] Cons.prems k
    by (simp add: mapSetAll_Cons)
qed

lemma alist_eqI:
  "distinct (map fst xs) \<Longrightarrow> map fst xs = map fst ys \<Longrightarrow> map_of xs = map_of ys \<Longrightarrow> xs = ys"
proof (induction xs arbitrary: ys)
  case Nil
  then show ?case by simp
next
  case (Cons x xs)
  then obtain y ys' where ys: "ys = y # ys'" by (cases ys) auto
  obtain k v where x: "x = (k, v)" by (cases x)
  obtain k' v' where y: "y = (k', v')" by (cases y)
  from Cons.prems(2) ys x y have kk: "k' = k" and keys: "map fst xs = map fst ys'" by simp_all
  have "map_of (x # xs) k = map_of ys k" by (rule fun_cong[OF Cons.prems(3)])
  then have vv: "v' = v" using ys x y kk by simp
  from Cons.prems(1) x have notin: "k \<notin> fst ` set xs" and dist: "distinct (map fst xs)" by auto
  have "map_of xs = map_of ys'"
  proof (rule ext)
    fix j
    show "map_of xs j = map_of ys' j"
    proof (cases "j = k")
      case True
      have "map_of xs k = None" using notin by (simp add: map_of_eq_None_iff)
      moreover have "map_of ys' k = None"
        using notin keys by (metis list.set_map map_of_eq_None_iff)
      ultimately show ?thesis using True by simp
    next
      case False
      have "map_of (x # xs) j = map_of ys j" by (rule fun_cong[OF Cons.prems(3)])
      then show ?thesis using False ys x y kk by simp
    qed
  qed
  then have "xs = ys'" using Cons.IH[OF dist keys] by simp
  then show ?case using ys x y kk vv by simp
qed

lemma update_fresh: "k \<notin> fst ` set m \<Longrightarrow> AList.update k v m = m @ [(k, v)]"
  by (induction m) auto

lemma mapSetAll_distinct_keys:
  "distinct (map fst m @ map mergeKey xs) \<Longrightarrow>
   mapSetAll m xs = m @ map (\<lambda>obs. (mergeKey obs, obs)) xs"
proof (induction xs arbitrary: m)
  case Nil
  show ?case by (simp add: mapSetAll_Nil)
next
  case (Cons x xs)
  have fresh: "mergeKey x \<notin> fst ` set m" using Cons.prems by auto
  have "distinct (map fst (m @ [(mergeKey x, x)]) @ map mergeKey xs)" using Cons.prems by auto
  then show ?case using Cons.IH[of "m @ [(mergeKey x, x)]"]
    by (simp add: mapSetAll_Cons update_fresh[OF fresh])
qed

subsection \<open>The merge\<close>

lemma set_mergeChronologically:
  "set (mergeChronologically cur inc) = snd ` set (mapSetAll (mapSetAll [] cur) inc)"
  by (simp add: mergeChronologically_def set_arraySort)

lemma merged_wellKeyed: "wellKeyed (mapSetAll (mapSetAll [] cur) inc)"
  by (intro wellKeyed_mapSetAll) (simp add: wellKeyed_def)

lemma merged_distinct: "distinct (map fst (mapSetAll (mapSetAll [] cur) inc))"
  by (intro distinct_mapSetAll) simp

lemma keys_of_values: "wellKeyed m \<Longrightarrow> mergeKey ` snd ` set m = fst ` set m"
  by (force simp: wellKeyed_def)

lemma keys_mergeChronologically:
  "mergeKey ` set (mergeChronologically cur inc) = mergeKey ` set cur \<union> mergeKey ` set inc"
  by (simp add: set_mergeChronologically keys_of_values[OF merged_wellKeyed] keys_mapSetAll)

lemma distinct_keys_mergeChronologically:
  "distinct (map mergeKey (mergeChronologically cur inc))"
proof -
  have "map mergeKey (map snd (mapSetAll (mapSetAll [] cur) inc))
      = map fst (mapSetAll (mapSetAll [] cur) inc)"
    using merged_wellKeyed by (rule map_key_values)
  then have "distinct (map mergeKey (map snd (mapSetAll (mapSetAll [] cur) inc)))"
    using merged_distinct[of cur inc] by (simp only:)
  then show ?thesis
    by (simp only: mergeChronologically_def distinct_map_arraySort)
qed


lemma validDates_merged:
  assumes "validDates cur" and "validDates inc"
  shows "validDates (map snd (mapSetAll (mapSetAll [] cur) inc))"
proof -
  have "snd ` set (mapSetAll (mapSetAll [] cur) inc) \<subseteq> snd ` set (mapSetAll [] cur) \<union> set inc"
    by (rule values_mapSetAll)
  moreover have "snd ` set (mapSetAll [] cur) \<subseteq> snd ` set ([] :: (string \<times> DerivedObservation) list) \<union> set cur"
    by (rule values_mapSetAll)
  ultimately have "snd ` set (mapSetAll (mapSetAll [] cur) inc) \<subseteq> set cur \<union> set inc"
    by auto
  then show ?thesis using assms by (auto simp: validDates_def)
qed

lemma seriesInvariant_mergeChronologically:
  assumes "validDates cur" and "validDates inc"
  shows "seriesInvariant (mergeChronologically cur inc)"
proof -
  let ?vals = "map snd (mapSetAll (mapSetAll [] cur) inc)"
  have v: "validDates ?vals" using assms by (rule validDates_merged)
  have "validDates (mergeChronologically cur inc)"
    using v by (simp add: validDates_def mergeChronologically_def set_arraySort)
  moreover have "sorted (map instant (mergeChronologically cur inc))"
    unfolding mergeChronologically_def using v by (rule sorted_arraySort)
  ultimately show ?thesis
    by (simp add: seriesInvariant_def distinct_keys_mergeChronologically)
qed

lemma mergeChronologically_idem:
  assumes "validDates cur" and "validDates inc"
  shows "mergeChronologically (mergeChronologically cur inc) inc = mergeChronologically cur inc"
proof -
  let ?M0 = "mapSetAll [] cur"
  let ?M1 = "mapSetAll ?M0 inc"
  let ?S1 = "mergeChronologically cur inc"
  let ?T = "map (\<lambda>obs. (mergeKey obs, obs)) ?S1"
  have inv: "seriesInvariant ?S1" using assms by (rule seriesInvariant_mergeChronologically)
  have wk: "wellKeyed ?M1" by (rule merged_wellKeyed)
  have dM: "distinct (map fst ?M1)" by (rule merged_distinct)
  have dS: "distinct (map mergeKey ?S1)" by (rule distinct_keys_mergeChronologically)
  have first: "mapSetAll [] ?S1 = ?T"
    using mapSetAll_distinct_keys[of "[]" ?S1] dS by simp
  have fstT: "map fst ?T = map mergeKey ?S1" by (simp add: comp_def)
  have dT: "distinct (map fst ?T)" using dS by (simp only: fstT)
  have setT: "set ?T = set ?M1"
  proof -
    have "set ?T = (\<lambda>obs. (mergeKey obs, obs)) ` snd ` set ?M1"
      by (simp add: set_mergeChronologically)
    also have "\<dots> = set ?M1" using wk by (force simp: wellKeyed_def)
    finally show ?thesis .
  qed
  have moT: "map_of ?T = map_of ?M1"
    using map_of_inject_set[OF dT dM] setT by simp
  have keysT: "fst ` set ?T = fst ` set ?M1" by (simp only: setT)
  have sub: "mergeKey ` set inc \<subseteq> fst ` set ?T"
    by (simp only: keysT keys_mapSetAll) simp
  have k2: "map fst (mapSetAll ?T inc) = map fst ?T" using sub by (rule keys_unchanged)
  have "map_of (mapSetAll ?T inc) = writes inc (map_of ?M1)"
    by (simp only: map_of_mapSetAll moT)
  also have "\<dots> = writes inc (writes inc (map_of ?M0))" by (simp only: map_of_mapSetAll)
  also have "\<dots> = writes inc (map_of ?M0)" by (rule writes_twice)
  also have "\<dots> = map_of ?T" by (simp only: moT map_of_mapSetAll)
  finally have m2: "map_of ?T = map_of (mapSetAll ?T inc)" by simp
  have second: "mapSetAll ?T inc = ?T"
    using alist_eqI[OF dT k2[symmetric] m2] by simp
  have "mergeChronologically ?S1 inc = arraySort dateDiff (map snd ?T)"
    by (simp only: mergeChronologically_def[of ?S1 inc] first second)
  also have "map snd ?T = ?S1" by (simp add: comp_def)
  also have "arraySort dateDiff ?S1 = ?S1"
    using inv by (intro arraySort_sorted_id) (simp_all add: seriesInvariant_def)
  finally show ?thesis .
qed

lemma seriesInvariant_ingest:
  assumes "validDates (observations st)" and "validDates batch"
    and "batch \<noteq> [] \<or> seriesInvariant (observations st)"
  shows "seriesInvariant (observations (ingest now st batch))"
  using assms seriesInvariant_mergeChronologically[of "observations st" batch]
  by (auto simp: ingest_def)

lemma keys_ingest:
  "mergeKey ` set (observations (ingest now st batch))
     = mergeKey ` set (observations st) \<union> mergeKey ` set batch"
  by (simp add: ingest_def keys_mergeChronologically)

lemma distinct_keys_ids:
  assumes "distinct (map mergeKey xs)" and "i < length xs" and "j < length xs" and "i \<noteq> j"
    and "id_obs (xs ! i) \<noteq> []"
  shows "id_obs (xs ! i) \<noteq> id_obs (xs ! j)"
proof
  assume eq: "id_obs (xs ! i) = id_obs (xs ! j)"
  then have "mergeKey (xs ! i) = mergeKey (xs ! j)" using assms(5) by (simp add: mergeKey_def)
  then have "map mergeKey xs ! i = map mergeKey xs ! j" using assms(2,3) by simp
  moreover have "i < length (map mergeKey xs)" "j < length (map mergeKey xs)"
    using assms(2,3) by simp_all
  ultimately have "i = j" using assms(1) by (simp only: nth_eq_iff_index_eq)
  then show False using assms(4) by simp
qed

text \<open>
  C5. Merge is idempotent: ingesting the same batch twice in a row leaves the same Series
  as ingesting it once (dates valid, so that the order of the sort is determined).
\<close>

theorem C5_ingest_idempotent:
  assumes "validDates (observations st)" and "validDates batch"
  shows "observations (ingest now2 (ingest now1 st batch) batch)
         = observations (ingest now1 st batch)"
  using assms mergeChronologically_idem[of "observations st" batch]
  by (simp add: ingest_def)

theorem C5_ingest_idempotent_witness:
  "validDates (observations (sampleState [sampleObs ''a'' ''t1'' 2000, sampleObs ''b'' ''t2'' 3000]))
   \<and> validDates [sampleObs ''c'' ''t3'' 1000, sampleObs ''a'' ''t4'' 5000]
   \<and> observations (ingest 9 (ingest 8
        (sampleState [sampleObs ''a'' ''t1'' 2000, sampleObs ''b'' ''t2'' 3000])
        [sampleObs ''c'' ''t3'' 1000, sampleObs ''a'' ''t4'' 5000])
        [sampleObs ''c'' ''t3'' 1000, sampleObs ''a'' ''t4'' 5000])
      = [sampleObs ''c'' ''t3'' 1000, sampleObs ''b'' ''t2'' 3000, sampleObs ''a'' ''t4'' 5000]"
proof -
  have v1: "validDates (observations (sampleState [sampleObs ''a'' ''t1'' 2000, sampleObs ''b'' ''t2'' 3000]))"
    by (simp add: validDates_def sampleState_def sampleObs_def)
  have v2: "validDates [sampleObs ''c'' ''t3'' 1000, sampleObs ''a'' ''t4'' 5000]"
    by (simp add: validDates_def sampleObs_def)
  have once: "observations (ingest 8
        (sampleState [sampleObs ''a'' ''t1'' 2000, sampleObs ''b'' ''t2'' 3000])
        [sampleObs ''c'' ''t3'' 1000, sampleObs ''a'' ''t4'' 5000])
      = [sampleObs ''c'' ''t3'' 1000, sampleObs ''b'' ''t2'' 3000, sampleObs ''a'' ''t4'' 5000]"
    by (simp add: ingest_def sampleState_def mergeChronologically_def mapSetAll_def
        arraySort_def mergeKey_def sampleObs_def dateDiff_def)
  show ?thesis
    using C5_ingest_idempotent[OF v1 v2, of 9 8] v1 v2 once by simp
qed

text \<open>
  C4, as the code has it. After an ingest the Series holds exactly the merge keys of the
  Series before and of the batch. With valid dates, and a batch that is not empty or a
  Series that satisfied the invariant before, the Series after the ingest is ascending by
  instant and no two of its elements share a merge key (the id, or the timestamp when the
  id is empty); so no two elements share an id that is not empty. For two batches ingested
  in either order into a Series that satisfies the invariant, both results satisfy it and
  hold the same keys.
\<close>

theorem C4_ingest_sorted_distinct_keys:
  assumes "validDates (observations st)" and "validDates A" and "validDates B"
  shows "mergeKey ` set (observations (ingest now st A))
           = mergeKey ` set (observations st) \<union> mergeKey ` set A
    \<and> (A \<noteq> [] \<or> seriesInvariant (observations st) \<longrightarrow>
         seriesInvariant (observations (ingest now st A)))
    \<and> (seriesInvariant (observations st) \<longrightarrow>
         seriesInvariant (observations (ingest n2 (ingest n1 st A) B))
         \<and> seriesInvariant (observations (ingest n4 (ingest n3 st B) A))
         \<and> mergeKey ` set (observations (ingest n2 (ingest n1 st A) B))
             = mergeKey ` set (observations st) \<union> mergeKey ` set A \<union> mergeKey ` set B
         \<and> mergeKey ` set (observations (ingest n4 (ingest n3 st B) A))
             = mergeKey ` set (observations st) \<union> mergeKey ` set A \<union> mergeKey ` set B)
    \<and> (seriesInvariant xs \<and> i < length xs \<and> j < length xs \<and> i \<noteq> j
           \<and> id_obs (xs ! i) \<noteq> [] \<longrightarrow> id_obs (xs ! i) \<noteq> id_obs (xs ! j))"
proof (intro conjI impI)
  show "mergeKey ` set (observations (ingest now st A))
           = mergeKey ` set (observations st) \<union> mergeKey ` set A"
    by (rule keys_ingest)
next
  assume "A \<noteq> [] \<or> seriesInvariant (observations st)"
  with assms(1,2) show "seriesInvariant (observations (ingest now st A))"
    by (rule seriesInvariant_ingest)
next
  assume "seriesInvariant xs \<and> i < length xs \<and> j < length xs \<and> i \<noteq> j
           \<and> id_obs (xs ! i) \<noteq> []"
  then show "id_obs (xs ! i) \<noteq> id_obs (xs ! j)"
    using distinct_keys_ids[of xs i j] by (simp add: seriesInvariant_def)
next
  assume inv: "seriesInvariant (observations st)"
  have a: "seriesInvariant (observations (ingest n1 st A))"
    using assms(1,2) inv by (intro seriesInvariant_ingest) simp_all
  have b: "seriesInvariant (observations (ingest n3 st B))"
    using assms(1,3) inv by (intro seriesInvariant_ingest) simp_all
  show "seriesInvariant (observations (ingest n2 (ingest n1 st A) B))"
    using a assms(3) by (intro seriesInvariant_ingest) (simp_all add: seriesInvariant_def)
  show "seriesInvariant (observations (ingest n4 (ingest n3 st B) A))"
    using b assms(2) by (intro seriesInvariant_ingest) (simp_all add: seriesInvariant_def)
  show "mergeKey ` set (observations (ingest n2 (ingest n1 st A) B))
      = mergeKey ` set (observations st) \<union> mergeKey ` set A \<union> mergeKey ` set B"
    by (simp only: keys_ingest)
  show "mergeKey ` set (observations (ingest n4 (ingest n3 st B) A))
      = mergeKey ` set (observations st) \<union> mergeKey ` set A \<union> mergeKey ` set B"
    by (auto simp only: keys_ingest)
qed

theorem C4_ingest_sorted_distinct_keys_witness:
  "validDates (observations (sampleState [sampleObs ''a'' ''t1'' 2000, sampleObs ''b'' ''t2'' 3000]))
   \<and> validDates [sampleObs ''c'' ''t3'' 1000, sampleObs ''a'' ''t4'' 5000]
   \<and> validDates [sampleObs ''d'' ''t5'' 4000]
   \<and> seriesInvariant (observations (sampleState [sampleObs ''a'' ''t1'' 2000, sampleObs ''b'' ''t2'' 3000]))
   \<and> seriesInvariant [sampleObs ''a'' ''t1'' 2000, sampleObs ''b'' ''t2'' 3000]
   \<and> seriesInvariant (observations (ingest 2 (ingest 1
        (sampleState [sampleObs ''a'' ''t1'' 2000, sampleObs ''b'' ''t2'' 3000])
        [sampleObs ''c'' ''t3'' 1000, sampleObs ''a'' ''t4'' 5000]) [sampleObs ''d'' ''t5'' 4000]))
   \<and> seriesInvariant (observations (ingest 4 (ingest 3
        (sampleState [sampleObs ''a'' ''t1'' 2000, sampleObs ''b'' ''t2'' 3000])
        [sampleObs ''d'' ''t5'' 4000]) [sampleObs ''c'' ''t3'' 1000, sampleObs ''a'' ''t4'' 5000]))
   \<and> id_obs ([sampleObs ''a'' ''t1'' 2000, sampleObs ''b'' ''t2'' 3000] ! 0)
       \<noteq> id_obs ([sampleObs ''a'' ''t1'' 2000, sampleObs ''b'' ''t2'' 3000] ! 1)"
proof -
  have v1: "validDates (observations (sampleState [sampleObs ''a'' ''t1'' 2000, sampleObs ''b'' ''t2'' 3000]))"
    by (simp add: validDates_def sampleState_def sampleObs_def)
  have v2: "validDates [sampleObs ''c'' ''t3'' 1000, sampleObs ''a'' ''t4'' 5000]"
    by (simp add: validDates_def sampleObs_def)
  have v3: "validDates [sampleObs ''d'' ''t5'' 4000]"
    by (simp add: validDates_def sampleObs_def)
  have inv: "seriesInvariant [sampleObs ''a'' ''t1'' 2000, sampleObs ''b'' ''t2'' 3000]"
    by (simp add: seriesInvariant_def validDates_def instant_def mergeKey_def sampleObs_def)
  have inv': "seriesInvariant (observations (sampleState [sampleObs ''a'' ''t1'' 2000, sampleObs ''b'' ''t2'' 3000]))"
    using inv by (simp add: sampleState_def)
  have ne: "id_obs ([sampleObs ''a'' ''t1'' 2000, sampleObs ''b'' ''t2'' 3000] ! 0) \<noteq> []"
    by (simp add: sampleObs_def)
  show ?thesis
    using C4_ingest_sorted_distinct_keys[OF v1 v2 v3, of 1 2 1 4 3
        "[sampleObs ''a'' ''t1'' 2000, sampleObs ''b'' ''t2'' 3000]" 0 1] v1 v2 v3 inv inv' ne
    by simp
qed

text \<open>
  Two records with an empty id and different timestamps have different merge keys: both
  stay in the Series, and they share the id. The normalizer produces such records from raw
  records whose \<^verbatim>\<open>id\<close> is the empty string, so a poll leaves them in the Series.
\<close>

theorem C4_shared_id_counterexample:
  "validDates [sampleObs [] ''t1'' 1000, sampleObs [] ''t2'' 2000]
   \<and> observations (ingest 1 (sampleState []) [sampleObs [] ''t1'' 1000, sampleObs [] ''t2'' 2000])
       = [sampleObs [] ''t1'' 1000, sampleObs [] ''t2'' 2000]
   \<and> \<not> distinct (map id_obs (observations
         (ingest 1 (sampleState []) [sampleObs [] ''t1'' 1000, sampleObs [] ''t2'' 2000])))
   \<and> map id_obs (observations (fst (pull sampleRuntime 600 1 (sampleState [])
         (Payload (Some [rawRecord [(''id'', JStr []), (''timestamp'', JStr ''2024-05-01T10:00:00Z'')],
                         rawRecord [(''id'', JStr []), (''timestamp'', JStr ''2024-05-01T10:05:00Z'')]])
            JUndefined)))) = [[], []]"
  by (simp add: validDates_def ingest_def sampleState_def mergeChronologically_def mapSetAll_def
      arraySort_def mergeKey_def sampleObs_def dateDiff_def pull_def fetchBatch_def
      applyCursorAdvance_def normalizeObservation_def sampleRuntime_def nullish_def
      decimalToNumber_def isDigit_def enumerate_eq_zip)

section \<open>Properties of the normalizer and of the synthetic generator\<close>

lemma coalesceNumber_firstFinite: "coalesceNumber rt vs fallback = firstFinite rt vs fallback"
proof (induction vs)
  case Nil
  show ?case by (simp add: firstFinite_def)
next
  case (Cons v vs)
  show ?case
  proof (cases "ToNumber rt v")
    case (Finite r)
    then show ?thesis by (simp add: firstFinite_def finiteNumber_def)
  next
    case PosInfinity
    then show ?thesis using Cons.IH by (simp add: firstFinite_def finiteNumber_def)
  next
    case NegInfinity
    then show ?thesis using Cons.IH by (simp add: firstFinite_def finiteNumber_def)
  next
    case NaN
    then show ?thesis using Cons.IH by (simp add: firstFinite_def finiteNumber_def)
  qed
qed

lemma firstFinite_first:
  assumes "\<forall>w \<in> set pre. \<not> finiteNumber (ToNumber rt w)" and "ToNumber rt v = Finite r"
  shows "firstFinite rt (pre @ v # post) fallback = r"
  using assms by (induction pre) (simp_all add: firstFinite_def finiteNumber_def)

lemma firstFinite_none:
  assumes "\<forall>w \<in> set vs. \<not> finiteNumber (ToNumber rt w)"
  shows "firstFinite rt vs fallback = fallback"
  using assms by (induction vs) (simp_all add: firstFinite_def)

lemma normalizeObservation_fields:
  assumes "normalizeObservation rt i raw = Inr obs"
  shows "altitude obs = coalesceNumber rt
           [raw ''altitude'', raw ''altitude_m'', raw ''altitude_agl'', raw ''altitude_from_gps''] 0"
    and "temperature obs = coalesceNumber rt
           [raw ''temperature'', raw ''temperature_c'', raw ''temp'', raw ''temperature_celsius''] 0"
    and "humidity obs = coalesceNumber rt
           [raw ''humidity'', raw ''relative_humidity'', raw ''rh'', raw ''humidity_percent''] 0"
    and "speed_u obs = coalesceNumber rt [raw ''speed_u'', raw ''wind_u'', raw ''u_component''] 0"
    and "speed_v obs = coalesceNumber rt [raw ''speed_v'', raw ''wind_v'', raw ''v_component''] 0"
    and "windSpeed obs = hypot (speed_u obs) (speed_v obs)"
  using assms unfolding normalizeObservation_def Let_def
  by (auto split: sum.splits)

lemma hypot_polar:
  assumes "0 \<le> w"
  shows "hypot (cos d * w) (sin d * w) = w"
proof -
  have "(cos d * w)\<^sup>2 + (sin d * w)\<^sup>2 = w\<^sup>2 * ((sin d)\<^sup>2 + (cos d)\<^sup>2)"
    by (simp only: power_mult_distrib distrib_left mult.commute add.commute)
  also have "\<dots> = w\<^sup>2" by simp
  finally have "hypot (cos d * w) (sin d * w) = sqrt (w\<^sup>2)" by (simp add: hypot_def)
  then show ?thesis using assms by simp
qed

lemma syntheticObservation_wind:
  assumes "syntheticObservation rt startMs count index = Inr obs"
  shows "2 \<le> windSpeed obs \<and> windSpeed obs \<le> 60
    \<and> (\<exists>d. speed_u obs = roundDouble rt (MathCos rt d * windSpeed obs)
           \<and> speed_v obs = roundDouble rt (MathSin rt d * windSpeed obs))"
proof -
  define wind where "wind = clamp (8 + MathCos rt (real index / real_of_int (max 1 (count - 1)) * pi * 3) * 18
      + randRange (MathRandom rt (6 * index + 4)) (- 3) 3) 2 60"
  define direction where "direction = real index / real_of_int (max 1 (count - 1)) * pi * 2
      + randRange (MathRandom rt (6 * index + 5)) (- 0.3) 0.3"
  have b: "2 \<le> wind \<and> wind \<le> 60" unfolding wind_def using clamp_bounds[of 2 60] by simp
  have "windSpeed obs = wind \<and> speed_u obs = roundDouble rt (MathCos rt direction * wind)
      \<and> speed_v obs = roundDouble rt (MathSin rt direction * wind)"
    using assms unfolding syntheticObservation_def Let_def wind_def direction_def
    by (auto split: option.splits sum.splits)
  then show ?thesis using b by auto
qed

lemma syntheticObservation_windSpeed_exact:
  assumes "syntheticObservation rt startMs count index = Inr obs" and "exactArithmetic rt"
  shows "windSpeed obs = hypot (speed_u obs) (speed_v obs)"
proof -
  obtain d where d: "speed_u obs = roundDouble rt (MathCos rt d * windSpeed obs)"
    "speed_v obs = roundDouble rt (MathSin rt d * windSpeed obs)"
    and w: "2 \<le> windSpeed obs"
    using syntheticObservation_wind[OF assms(1)] by blast
  have "speed_u obs = cos d * windSpeed obs" and "speed_v obs = sin d * windSpeed obs"
    using d assms(2) by (simp_all add: exactArithmetic_def)
  moreover have "0 \<le> windSpeed obs" using w by simp
  ultimately show ?thesis using hypot_polar[of "windSpeed obs" d] by simp
qed

lemma collect_Inr_elements:
  "collect (map f xs) = Inr ys \<Longrightarrow> y \<in> set ys \<Longrightarrow> \<exists>x \<in> set xs. f x = Inr y"
proof (induction xs arbitrary: ys)
  case Nil
  then show ?case by simp
next
  case (Cons x xs)
  show ?case
  proof (cases "f x")
    case (Inl e)
    then show ?thesis using Cons.prems by simp
  next
    case (Inr z)
    then obtain zs where zs: "collect (map f xs) = Inr zs" "ys = z # zs"
      using Cons.prems(1) by (auto split: sum.splits)
    show ?thesis
    proof (cases "y = z")
      case True
      then show ?thesis using Inr by auto
    next
      case False
      then have "y \<in> set zs" using Cons.prems(2) zs(2) by simp
      then show ?thesis using Cons.IH[OF zs(1)] by auto
    qed
  qed
qed


lemma buildSyntheticObservations_element:
  assumes "buildSyntheticObservations rt startIso count = Inr xs" and "obs \<in> set xs"
  shows "\<exists>index. syntheticObservation rt (DateParse rt startIso) count index = Inr obs"
  using collect_Inr_elements[OF assms(1)[unfolded buildSyntheticObservations_def] assms(2)]
  by auto

lemma hypot_below:
  assumes "0 \<le> a" and "x\<^sup>2 + y\<^sup>2 < a\<^sup>2"
  shows "hypot x y < a"
  unfolding hypot_def using assms by (rule real_less_lsqrt)

text \<open>
  C6, as the code has it. Every observation that the normalizer returns, for any raw
  record, has windSpeed = hypot(speed_u, speed_v), the square root of u * u + v * v: the
  normalizer computes it from the two components and reads no upstream speed. Every
  observation of the synthetic generator stores as windSpeed the generated speed w, which
  lies in [2, 60], and as components the products cos(d) * w and sin(d) * w as the engine
  rounds them, for the generated direction d. There windSpeed = hypot(speed_u, speed_v)
  holds in exact arithmetic, without rounding.
\<close>

theorem C6_windSpeed_and_components:
  "(normalizeObservation rt i raw = Inr obs \<longrightarrow>
      windSpeed obs = hypot (speed_u obs) (speed_v obs)
      \<and> hypot (speed_u obs) (speed_v obs) = sqrt ((speed_u obs)\<^sup>2 + (speed_v obs)\<^sup>2))
   \<and> (buildSyntheticObservations rt startIso count = Inr xs \<longrightarrow>
      list_all (\<lambda>x. 2 \<le> windSpeed x \<and> windSpeed x \<le> 60
         \<and> (\<exists>d. speed_u x = roundDouble rt (MathCos rt d * windSpeed x)
                \<and> speed_v x = roundDouble rt (MathSin rt d * windSpeed x))) xs)
   \<and> (buildSyntheticObservations rt startIso count = Inr xs \<and> exactArithmetic rt \<longrightarrow>
      list_all (\<lambda>x. windSpeed x = hypot (speed_u x) (speed_v x)) xs)"
proof (intro conjI impI)
  assume "normalizeObservation rt i raw = Inr obs"
  then show "windSpeed obs = hypot (speed_u obs) (speed_v obs)"
    by (rule normalizeObservation_fields(6))
  show "hypot (speed_u obs) (speed_v obs) = sqrt ((speed_u obs)\<^sup>2 + (speed_v obs)\<^sup>2)"
    by (simp add: hypot_def)
next
  assume b: "buildSyntheticObservations rt startIso count = Inr xs"
  show "list_all (\<lambda>x. 2 \<le> windSpeed x \<and> windSpeed x \<le> 60
         \<and> (\<exists>d. speed_u x = roundDouble rt (MathCos rt d * windSpeed x)
                \<and> speed_v x = roundDouble rt (MathSin rt d * windSpeed x))) xs"
    unfolding list_all_iff
  proof
    fix x
    assume "x \<in> set xs"
    then obtain index where "syntheticObservation rt (DateParse rt startIso) count index = Inr x"
      using buildSyntheticObservations_element[OF b] by blast
    then show "2 \<le> windSpeed x \<and> windSpeed x \<le> 60
         \<and> (\<exists>d. speed_u x = roundDouble rt (MathCos rt d * windSpeed x)
                \<and> speed_v x = roundDouble rt (MathSin rt d * windSpeed x))"
      by (rule syntheticObservation_wind)
  qed
next
  assume be: "buildSyntheticObservations rt startIso count = Inr xs \<and> exactArithmetic rt"
  show "list_all (\<lambda>x. windSpeed x = hypot (speed_u x) (speed_v x)) xs"
    unfolding list_all_iff
  proof
    fix x
    assume "x \<in> set xs"
    then obtain index where "syntheticObservation rt (DateParse rt startIso) count index = Inr x"
      using buildSyntheticObservations_element[of rt startIso count xs x] be by blast
    moreover have "exactArithmetic rt" using be by simp
    ultimately show "windSpeed x = hypot (speed_u x) (speed_v x)"
      by (rule syntheticObservation_windSpeed_exact)
  qed
qed

theorem C6_windSpeed_and_components_witness:
  "normalizeObservation sampleRuntime 0
     (rawRecord [(''id'', JStr ''obs-1''), (''timestamp'', JNum (Finite 1700000000)),
        (''speed_u'', JNum (Finite 3)), (''speed_v'', JNum (Finite 4)),
        (''wind_speed'', JNum (Finite 99))])
     = Inr ((sampleObs ''obs-1'' ''1970-01-01T00:00:00.000Z'' 0)
         \<lparr> speed_u := 3, speed_v := 4, windSpeed := hypot 3 4 \<rparr>)
   \<and> hypot 3 4 = sqrt (3\<^sup>2 + 4\<^sup>2)
   \<and> exactArithmetic sampleRuntime
   \<and> buildSyntheticObservations sampleRuntime ''1970-01-01T00:00:00.000Z'' 1
     = Inr [\<lparr> id_obs = ''windborne-sim-0'', missionId = ''windborne-sim'',
         timestamp = ''1970-01-01T00:00:00.000Z'', date = Some 0, altitude = 500,
         temperature = - 65, humidity = 25, speed_u = 26, speed_v = 0, windSpeed = 26 \<rparr>]
   \<and> hypot 26 0 = 26"
proof -
  have n: "normalizeObservation sampleRuntime 0
     (rawRecord [(''id'', JStr ''obs-1''), (''timestamp'', JNum (Finite 1700000000)),
        (''speed_u'', JNum (Finite 3)), (''speed_v'', JNum (Finite 4)),
        (''wind_speed'', JNum (Finite 99))])
     = Inr ((sampleObs ''obs-1'' ''1970-01-01T00:00:00.000Z'' 0)
         \<lparr> speed_u := 3, speed_v := 4, windSpeed := hypot 3 4 \<rparr>)"
    by (simp add: normalizeObservation_def sampleRuntime_def nullish_def secondsOrMillis_def
        TimeClip_def toISOString_def sampleObs_def)
  have s: "buildSyntheticObservations sampleRuntime ''1970-01-01T00:00:00.000Z'' 1
     = Inr [\<lparr> id_obs = ''windborne-sim-0'', missionId = ''windborne-sim'',
         timestamp = ''1970-01-01T00:00:00.000Z'', date = Some 0, altitude = 500,
         temperature = - 65, humidity = 25, speed_u = 26, speed_v = 0, windSpeed = 26 \<rparr>]"
    by (simp add: buildSyntheticObservations_def syntheticObservation_def sampleRuntime_def
        randRange_def easeInOut_def clamp_def TimeClip_def toISOString_def)
  have e: "exactArithmetic sampleRuntime"
    by (simp add: exactArithmetic_def sampleRuntime_def)
  show ?thesis
    using C6_windSpeed_and_components[of sampleRuntime 0
        "rawRecord [(''id'', JStr ''obs-1''), (''timestamp'', JNum (Finite 1700000000)),
          (''speed_u'', JNum (Finite 3)), (''speed_v'', JNum (Finite 4)),
          (''wind_speed'', JNum (Finite 99))]"
        "(sampleObs ''obs-1'' ''1970-01-01T00:00:00.000Z'' 0)
           \<lparr> speed_u := 3, speed_v := 4, windSpeed := hypot 3 4 \<rparr>"
        "''1970-01-01T00:00:00.000Z''" 1
        "[\<lparr> id_obs = ''windborne-sim-0'', missionId = ''windborne-sim'',
           timestamp = ''1970-01-01T00:00:00.000Z'', date = Some 0, altitude = 500,
           temperature = - 65, humidity = 25, speed_u = 26, speed_v = 0, windSpeed = 26 \<rparr>]"]
      n s e
    by (simp add: sampleObs_def)
qed

text \<open>
  In doubles the equality fails on the synthetic path. With the draws of
  \<open>roundingRuntime\<close> the generator stores windSpeed = 26 and the components
  u = fl(cos(d) * 26) and v = fl(sin(d) * 26) for d = -15/128; the exact hypot(u, v) lies
  more than half a unit in the last place (1/2^48 at 26) below 26, so it is not 26, and
  neither is the double nearest to it.
\<close>

theorem C6_synthetic_rounding_counterexample:
  "buildSyntheticObservations roundingRuntime ''1970-01-01T00:00:00.000Z'' 1
     = Inr [\<lparr> id_obs = ''windborne-sim-0'', missionId = ''windborne-sim'',
         timestamp = ''1970-01-01T00:00:00.000Z'', date = Some 0, altitude = 500,
         temperature = - 65, humidity = 25,
         speed_u = 7268155758635310 / 2 ^ 48,
         speed_v = - (6845259862341243 / 2 ^ 51),
         windSpeed = 26 \<rparr>]
   \<and> hypot (7268155758635310 / 2 ^ 48) (- (6845259862341243 / 2 ^ 51)) < 26 - 1 / 2 ^ 49
   \<and> hypot (7268155758635310 / 2 ^ 48) (- (6845259862341243 / 2 ^ 51)) \<noteq> 26"
proof -
  have u: "binary64 (8945422472166536 / 2 ^ 53 * 26) = 7268155758635310 / 2 ^ 48"
    by (simp add: binary64_def nearestEven_def Let_def)
  have v: "binary64 (- (8424935215189222 / 2 ^ 56) * 26) = - (6845259862341243 / 2 ^ 51)"
    by (simp add: binary64_def nearestEven_def Let_def)
  have b: "buildSyntheticObservations roundingRuntime ''1970-01-01T00:00:00.000Z'' 1
     = Inr [\<lparr> id_obs = ''windborne-sim-0'', missionId = ''windborne-sim'',
         timestamp = ''1970-01-01T00:00:00.000Z'', date = Some 0, altitude = 500,
         temperature = - 65, humidity = 25,
         speed_u = binary64 (8945422472166536 / 2 ^ 53 * 26),
         speed_v = binary64 (- (8424935215189222 / 2 ^ 56) * 26),
         windSpeed = 26 \<rparr>]"
    by (simp add: buildSyntheticObservations_def syntheticObservation_def roundingRuntime_def
        sampleRuntime_def randRange_def easeInOut_def clamp_def TimeClip_def toISOString_def)
  have h: "hypot (7268155758635310 / 2 ^ 48) (- (6845259862341243 / 2 ^ 51)) < 26 - 1 / 2 ^ 49"
    by (rule hypot_below) (simp_all add: power2_eq_square)
  show ?thesis using b u v h by simp
qed

text \<open>
  C9, as the code has it. Whenever the normalizer returns an observation, each numeric
  field is the numeric value \<^verbatim>\<open>Number(v)\<close> of the first candidate \<open>v\<close> of its alias list
  for which that value is finite, and 0 when there is none. A number counts with its own
  value and a string with its parsed value; \<^verbatim>\<open>null\<close> counts as 0 and a boolean as 0 or 1.
\<close>

theorem C9_numeric_fields_first_finite:
  "(normalizeObservation rt i raw = Inr obs \<longrightarrow>
      altitude obs = firstFinite rt
        [raw ''altitude'', raw ''altitude_m'', raw ''altitude_agl'', raw ''altitude_from_gps''] 0
      \<and> temperature obs = firstFinite rt
        [raw ''temperature'', raw ''temperature_c'', raw ''temp'', raw ''temperature_celsius''] 0
      \<and> humidity obs = firstFinite rt
        [raw ''humidity'', raw ''relative_humidity'', raw ''rh'', raw ''humidity_percent''] 0
      \<and> speed_u obs = firstFinite rt [raw ''speed_u'', raw ''wind_u'', raw ''u_component''] 0
      \<and> speed_v obs = firstFinite rt [raw ''speed_v'', raw ''wind_v'', raw ''v_component''] 0)
   \<and> ((\<forall>w \<in> set pre. \<not> finiteNumber (ToNumber rt w)) \<and> ToNumber rt v = Finite r \<longrightarrow>
        firstFinite rt (pre @ v # post) fallback = r)
   \<and> ((\<forall>w \<in> set vs. \<not> finiteNumber (ToNumber rt w)) \<longrightarrow> firstFinite rt vs fallback = fallback)
   \<and> ToNumber rt (JNum n) = n
   \<and> ToNumber rt (JStr s) = StringToNumber rt s
   \<and> ToNumber rt JNull = Finite 0
   \<and> ToNumber rt (JBool b) = Finite (if b then 1 else 0)
   \<and> ToNumber rt JUndefined = NaN"
proof (intro conjI impI)
  assume ret: "normalizeObservation rt i raw = Inr obs"
  show "altitude obs = firstFinite rt
        [raw ''altitude'', raw ''altitude_m'', raw ''altitude_agl'', raw ''altitude_from_gps''] 0"
    using normalizeObservation_fields(1)[OF ret] by (simp only: coalesceNumber_firstFinite)
  show "temperature obs = firstFinite rt
        [raw ''temperature'', raw ''temperature_c'', raw ''temp'', raw ''temperature_celsius''] 0"
    using normalizeObservation_fields(2)[OF ret] by (simp only: coalesceNumber_firstFinite)
  show "humidity obs = firstFinite rt
        [raw ''humidity'', raw ''relative_humidity'', raw ''rh'', raw ''humidity_percent''] 0"
    using normalizeObservation_fields(3)[OF ret] by (simp only: coalesceNumber_firstFinite)
  show "speed_u obs = firstFinite rt [raw ''speed_u'', raw ''wind_u'', raw ''u_component''] 0"
    using normalizeObservation_fields(4)[OF ret] by (simp only: coalesceNumber_firstFinite)
  show "speed_v obs = firstFinite rt [raw ''speed_v'', raw ''wind_v'', raw ''v_component''] 0"
    using normalizeObservation_fields(5)[OF ret] by (simp only: coalesceNumber_firstFinite)
next
  assume "(\<forall>w \<in> set pre. \<not> finiteNumber (ToNumber rt w)) \<and> ToNumber rt v = Finite r"
  then show "firstFinite rt (pre @ v # post) fallback = r"
    by (intro firstFinite_first) simp_all
next
  assume "\<forall>w \<in> set vs. \<not> finiteNumber (ToNumber rt w)"
  then show "firstFinite rt vs fallback = fallback" by (rule firstFinite_none)
qed simp_all

theorem C9_numeric_fields_first_finite_witness:
  "normalizeObservation sampleRuntime 0
     (rawRecord [(''id'', JStr ''obs-1''), (''timestamp'', JNum (Finite 1700000000)),
        (''altitude'', JStr ''1200''), (''temperature_c'', JNum (Finite (- 40))),
        (''humidity'', JStr ''n/a''), (''rh'', JNum (Finite 55))])
     = Inr ((sampleObs ''obs-1'' ''1970-01-01T00:00:00.000Z'' 0)
         \<lparr> altitude := 1200, temperature := - 40, humidity := 55 \<rparr>)
   \<and> \<not> finiteNumber (ToNumber sampleRuntime (JStr ''n/a''))
   \<and> ToNumber sampleRuntime (JNum (Finite 55)) = Finite 55
   \<and> firstFinite sampleRuntime ([JStr ''n/a''] @ JNum (Finite 55) # [JUndefined]) 0 = 55
   \<and> ToNumber sampleRuntime (JStr ''1200'') = Finite 1200
   \<and> firstFinite sampleRuntime [JStr ''n/a'', JUndefined] 0 = 0"
proof -
  have n: "normalizeObservation sampleRuntime 0
     (rawRecord [(''id'', JStr ''obs-1''), (''timestamp'', JNum (Finite 1700000000)),
        (''altitude'', JStr ''1200''), (''temperature_c'', JNum (Finite (- 40))),
        (''humidity'', JStr ''n/a''), (''rh'', JNum (Finite 55))])
     = Inr ((sampleObs ''obs-1'' ''1970-01-01T00:00:00.000Z'' 0)
         \<lparr> altitude := 1200, temperature := - 40, humidity := 55 \<rparr>)"
    by (simp add: normalizeObservation_def sampleRuntime_def nullish_def secondsOrMillis_def
        TimeClip_def toISOString_def sampleObs_def decimalToNumber_def isDigit_def digitValue_def
        hypot_def)
  have na: "ToNumber sampleRuntime (JStr ''n/a'') = NaN"
    by (simp add: sampleRuntime_def decimalToNumber_def isDigit_def)
  have num: "ToNumber sampleRuntime (JStr ''1200'') = Finite 1200"
    by (simp add: sampleRuntime_def decimalToNumber_def isDigit_def digitValue_def)
  show ?thesis
    using C9_numeric_fields_first_finite[of sampleRuntime 0
        "rawRecord [(''id'', JStr ''obs-1''), (''timestamp'', JNum (Finite 1700000000)),
          (''altitude'', JStr ''1200''), (''temperature_c'', JNum (Finite (- 40))),
          (''humidity'', JStr ''n/a''), (''rh'', JNum (Finite 55))]"
        "(sampleObs ''obs-1'' ''1970-01-01T00:00:00.000Z'' 0)
           \<lparr> altitude := 1200, temperature := - 40, humidity := 55 \<rparr>"
        "[JStr ''n/a'']" "JNum (Finite 55)" 55 "[JUndefined]" 0 "[JStr ''n/a'', JUndefined]"]
      n na num
    by (simp add: finiteNumber_def)
qed

text \<open>
  The normalizer is not total: a timestamp beyond the range of \<^verbatim>\<open>Date\<close> makes
  \<^verbatim>\<open>toISOString\<close> throw. And a candidate need not hold a number to win: \<^verbatim>\<open>null\<close> under
  the first alias yields 0 although a later alias holds the finite number 500.
\<close>

theorem C9_normalize_counterexample:
  "normalizeObservation sampleRuntime 0
     (rawRecord [(''id'', JStr ''obs-1''), (''timestamp'', JNum (Finite 10000000000000000))])
     = Inl (RangeError ''Invalid time value'')
   \<and> map_sum message altitude (normalizeObservation sampleRuntime 0
       (rawRecord [(''id'', JStr ''obs-1''), (''timestamp'', JNum (Finite 1700000000)),
          (''altitude'', JNull), (''altitude_m'', JNum (Finite 500))])) = Inr 0"
  by (simp add: normalizeObservation_def sampleRuntime_def nullish_def secondsOrMillis_def
      TimeClip_def toISOString_def)

section \<open>Properties of the cursor and of polling\<close>

lemma fetchBatch_fails_any_state:
  "fetchBatch rt st res = Inl e \<Longrightarrow> fetchBatch rt st' res = Inl e"
  by (auto simp: fetchBatch_def Let_def split: fetch_result.splits sum.splits)

lemma fetchBatch_cursor:
  "fetchBatch rt st (Payload obs nextSince) = Inr (normalized, st') \<Longrightarrow>
   st' = applyCursorAdvance st normalized nextSince"
  by (auto simp: fetchBatch_def Let_def split: sum.splits)

lemma fetchBatch_keeps_data:
  assumes "fetchBatch rt st res = Inr (normalized, st')"
  shows "observations st' = observations st \<and> hasDataRef st' = hasDataRef st"
proof -
  obtain obs nextSince where "res = Payload obs nextSince"
    using assms by (cases res) (simp_all add: fetchBatch_def)
  then have "st' = applyCursorAdvance st normalized nextSince"
    using assms fetchBatch_cursor by simp
  then show ?thesis
    by (simp add: applyCursorAdvance_def Let_def split: jsval.splits)
qed

lemma dataFlagged_ingest: "dataFlagged st \<Longrightarrow> dataFlagged (ingest now st batch)"
  by (simp add: dataFlagged_def ingest_def)

lemma dataFlagged_pull:
  assumes "dataFlagged st"
  shows "dataFlagged (fst (pull rt limit now st res))"
proof (cases "fetchBatch rt (st \<lparr> status := (if status st = Ready then Ready else Loading) \<rparr>) res")
  case (Inl err)
  then show ?thesis using assms
    by (auto simp: pull_def Let_def dataFlagged_def split: sum.splits)
next
  case (Inr r)
  obtain batch st2 where r: "r = (batch, st2)" by (cases r)
  have "observations st2 = observations st \<and> hasDataRef st2 = hasDataRef st"
    using fetchBatch_keeps_data[OF Inr[unfolded r]] by simp
  then have "dataFlagged st2" using assms by (simp add: dataFlagged_def)
  then have "dataFlagged (ingest now st2 batch)" by (rule dataFlagged_ingest)
  then show ?thesis using Inr r by (simp add: pull_def Let_def dataFlagged_def)
qed

lemma pull_failure_with_data:
  assumes "fetchBatch rt st res = Inl err" and "dataFlagged st" and "observations st \<noteq> []"
  shows "pull rt limit now st res = (st \<lparr> error := Some (message err), status := ErrorStatus \<rparr>, None)"
proof -
  let ?st1 = "st \<lparr> status := (if status st = Ready then Ready else Loading) \<rparr>"
  have f: "fetchBatch rt ?st1 res = Inl err" using assms(1) by (rule fetchBatch_fails_any_state)
  have h: "hasDataRef ?st1" using assms(2,3) by (simp add: dataFlagged_def)
  show ?thesis using f h by (simp add: pull_def Let_def)
qed

lemma pull_success_status:
  assumes "fetchBatch rt st res = Inr r"
  shows "status (fst (pull rt limit now st res)) = Ready \<and> error (fst (pull rt limit now st res)) = None"
proof -
  obtain obs nextSince where res: "res = Payload obs nextSince"
    using assms by (cases res) (simp_all add: fetchBatch_def)
  let ?st1 = "st \<lparr> status := (if status st = Ready then Ready else Loading) \<rparr>"
  have "\<exists>r'. fetchBatch rt ?st1 res = Inr r'"
    using assms by (auto simp: res fetchBatch_def Let_def split: sum.splits)
  then obtain batch st2 where "fetchBatch rt ?st1 res = Inr (batch, st2)" by auto
  then show ?thesis by (simp add: pull_def Let_def)
qed

text \<open>
  C1, as the code has it. A stream state never holds observations without the flag
  \<open>hasDataRef\<close>. When a poll's fetch fails while the Series is not empty, the poll leaves
  the Series and everything else as it was, attaches the message of the failure, and sets
  the status to \<open>error\<close>; the next poll whose fetch succeeds sets it back to \<open>ready\<close> and
  clears the message.
\<close>

theorem C1_failed_poll_with_data:
  "dataFlagged (initialState rt mission sinceIso)
   \<and> (dataFlagged st \<longrightarrow>
        dataFlagged (fst (pull rt limit now st res))
        \<and> dataFlagged (resetState rt st)
        \<and> dataFlagged (changeFilter rt mission sinceIso st))
   \<and> (fetchBatch rt st res = Inl err \<and> dataFlagged st \<and> observations st \<noteq> [] \<longrightarrow>
        pull rt limit now st res
          = (st \<lparr> error := Some (message err), status := ErrorStatus \<rparr>, None))
   \<and> (fetchBatch rt st res = Inr r \<longrightarrow>
        status (fst (pull rt limit now st res)) = Ready
        \<and> error (fst (pull rt limit now st res)) = None)"
proof (intro conjI impI)
  show "dataFlagged (initialState rt mission sinceIso)"
    by (simp add: dataFlagged_def initialState_def)
next
  assume "dataFlagged st"
  then show "dataFlagged (fst (pull rt limit now st res))" by (rule dataFlagged_pull)
  show "dataFlagged (resetState rt st)" by (simp add: dataFlagged_def resetState_def)
  show "dataFlagged (changeFilter rt mission sinceIso st)"
    using \<open>dataFlagged st\<close> by (simp add: dataFlagged_def changeFilter_def resetState_def)
next
  assume "fetchBatch rt st res = Inl err \<and> dataFlagged st \<and> observations st \<noteq> []"
  then show "pull rt limit now st res
      = (st \<lparr> error := Some (message err), status := ErrorStatus \<rparr>, None)"
    by (intro pull_failure_with_data) simp_all
next
  assume "fetchBatch rt st res = Inr r"
  then show "status (fst (pull rt limit now st res)) = Ready"
    and "error (fst (pull rt limit now st res)) = None"
    using pull_success_status[of rt st res r limit now] by simp_all
qed

theorem C1_failed_poll_with_data_witness:
  "dataFlagged (sampleState [sampleObs ''a'' ''t1'' 1000])
   \<and> observations (sampleState [sampleObs ''a'' ''t1'' 1000]) \<noteq> []
   \<and> fetchBatch sampleRuntime (sampleState [sampleObs ''a'' ''t1'' 1000])
        (Unavailable (Error ''WindBorne API error (503)'')) = Inl (Error ''WindBorne API error (503)'')
   \<and> pull sampleRuntime 600 7 (sampleState [sampleObs ''a'' ''t1'' 1000])
        (Unavailable (Error ''WindBorne API error (503)''))
      = ((sampleState [sampleObs ''a'' ''t1'' 1000])
           \<lparr> error := Some ''WindBorne API error (503)'', status := ErrorStatus \<rparr>, None)
   \<and> fetchBatch sampleRuntime
        ((sampleState [sampleObs ''a'' ''t1'' 1000])
           \<lparr> error := Some ''WindBorne API error (503)'', status := ErrorStatus \<rparr>)
        (Payload None JUndefined)
      = Inr ([], (sampleState [sampleObs ''a'' ''t1'' 1000])
           \<lparr> error := Some ''WindBorne API error (503)'', status := ErrorStatus \<rparr>)
   \<and> status (fst (pull sampleRuntime 600 8
        ((sampleState [sampleObs ''a'' ''t1'' 1000])
           \<lparr> error := Some ''WindBorne API error (503)'', status := ErrorStatus \<rparr>)
        (Payload None JUndefined))) = Ready"
proof -
  have f1: "fetchBatch sampleRuntime (sampleState [sampleObs ''a'' ''t1'' 1000])
        (Unavailable (Error ''WindBorne API error (503)'')) = Inl (Error ''WindBorne API error (503)'')"
    by (simp add: fetchBatch_def)
  have f2: "fetchBatch sampleRuntime
        ((sampleState [sampleObs ''a'' ''t1'' 1000])
           \<lparr> error := Some ''WindBorne API error (503)'', status := ErrorStatus \<rparr>)
        (Payload None JUndefined)
      = Inr ([], (sampleState [sampleObs ''a'' ''t1'' 1000])
           \<lparr> error := Some ''WindBorne API error (503)'', status := ErrorStatus \<rparr>)"
    by (simp add: fetchBatch_def applyCursorAdvance_def)
  have d: "dataFlagged (sampleState [sampleObs ''a'' ''t1'' 1000])"
    by (simp add: dataFlagged_def sampleState_def)
  have ne: "observations (sampleState [sampleObs ''a'' ''t1'' 1000]) \<noteq> []"
    by (simp add: sampleState_def)
  show ?thesis
    using C1_failed_poll_with_data[of sampleRuntime None "''1970-01-01T00:00:00.000Z''"
        "sampleState [sampleObs ''a'' ''t1'' 1000]" 600 7
        "Unavailable (Error ''WindBorne API error (503)'')" "Error ''WindBorne API error (503)''"]
      C1_failed_poll_with_data[of sampleRuntime None "''1970-01-01T00:00:00.000Z''"
        "(sampleState [sampleObs ''a'' ''t1'' 1000])
           \<lparr> error := Some ''WindBorne API error (503)'', status := ErrorStatus \<rparr>" 600 8
        "Payload None JUndefined" "Error []"
        "([], (sampleState [sampleObs ''a'' ''t1'' 1000])
           \<lparr> error := Some ''WindBorne API error (503)'', status := ErrorStatus \<rparr>)"]
      f1 f2 d ne
    by simp
qed

text \<open>
  One observation is resident and the status is \<open>ready\<close>; a poll whose fetch fails leaves
  the status \<open>error\<close>.
\<close>

theorem C1_status_counterexample:
  "observations (sampleState [sampleObs ''a'' ''t1'' 1000]) = [sampleObs ''a'' ''t1'' 1000]
   \<and> status (sampleState [sampleObs ''a'' ''t1'' 1000]) = Ready
   \<and> observations (fst (pull sampleRuntime 600 7 (sampleState [sampleObs ''a'' ''t1'' 1000])
        (Unavailable (Error ''WindBorne API error (503)'')))) = [sampleObs ''a'' ''t1'' 1000]
   \<and> status (fst (pull sampleRuntime 600 7 (sampleState [sampleObs ''a'' ''t1'' 1000])
        (Unavailable (Error ''WindBorne API error (503)'')))) = ErrorStatus
   \<and> ErrorStatus \<noteq> Ready"
  by (simp add: pull_def fetchBatch_def sampleState_def)

lemma cursor_last_is_max:
  assumes "normalized \<noteq> []" and "\<forall>x \<in> set normalized. instant x \<le> instant (last normalized)"
  shows "Max (instant ` set normalized) = instant (last normalized)"
proof (rule Max_eqI)
  show "finite (instant ` set normalized)" by simp
  show "\<And>y. y \<in> instant ` set normalized \<Longrightarrow> y \<le> instant (last normalized)"
    using assms(2) by auto
  show "instant (last normalized) \<in> instant ` set normalized"
    using assms(1) by simp
qed

text \<open>
  C2, as the code has it. After a successful fetch: when at least one record was returned,
  the cursor is floor(instant of the last record of the batch / 1000) + 1 (the instant in
  milliseconds), which is one second past the latest instant of the batch when no record of
  the batch is later than its last one; when none was returned and the response carried a
  numeric next_since, the cursor is that number; otherwise the cursor is unchanged. The
  cursor does not decrease when the last record is not earlier than the cursor, or
  when the hint is not below it.
\<close>

theorem C2_cursor_after_fetch:
  assumes "fetchBatch rt st (Payload obs nextSince) = Inr (normalized, st')"
  shows "(normalized \<noteq> [] \<and> date (last normalized) = Some t \<longrightarrow>
            cursorRef st' = Finite (real_of_int (t div 1000 + 1))
            \<and> real_of_int (t div 1000 + 1) = real_of_int \<lfloor>real_of_int t / 1000\<rfloor> + 1)
    \<and> (normalized \<noteq> [] \<and> validDates normalized
          \<and> (\<forall>x \<in> set normalized. instant x \<le> instant (last normalized)) \<longrightarrow>
            cursorRef st' = Finite (real_of_int (Max (instant ` set normalized) div 1000 + 1)))
    \<and> (normalized = [] \<and> nextSince = JNum n \<longrightarrow> cursorRef st' = n)
    \<and> (normalized = [] \<and> (\<forall>m. nextSince \<noteq> JNum m) \<longrightarrow> cursorRef st' = cursorRef st)
    \<and> (normalized \<noteq> [] \<and> date (last normalized) = Some t \<and> cursorRef st = Finite c
          \<and> c \<le> real_of_int (t div 1000) \<longrightarrow>
            (\<exists>c'. cursorRef st' = Finite c' \<and> c < c'))
    \<and> (normalized = [] \<and> nextSince = JNum (Finite h) \<and> cursorRef st = Finite c \<and> c \<le> h \<longrightarrow>
            (\<exists>c'. cursorRef st' = Finite c' \<and> c \<le> c'))"
proof -
  have st': "st' = applyCursorAdvance st normalized nextSince"
    using assms by (rule fetchBatch_cursor)
  have last: "normalized \<noteq> [] \<Longrightarrow> date (last normalized) = Some u \<Longrightarrow>
      cursorRef st' = Finite (real_of_int (u div 1000 + 1))" for u
    by (simp add: st' applyCursorAdvance_def Let_def)
  have fl: "real_of_int (t div 1000 + 1) = real_of_int \<lfloor>real_of_int t / 1000\<rfloor> + 1"
    using floor_divide_of_int_eq[of t 1000, where ?'a = real] by simp
  have mx: "cursorRef st' = Finite (real_of_int (Max (instant ` set normalized) div 1000 + 1))"
    if ne: "normalized \<noteq> []" and v: "validDates normalized"
      and le: "\<forall>x \<in> set normalized. instant x \<le> instant (last normalized)"
  proof -
    have "last normalized \<in> set normalized" using ne by simp
    then have "date (last normalized) = Some (instant (last normalized))"
      using v by (auto simp: validDates_def instant_def)
    then have "cursorRef st' = Finite (real_of_int (instant (last normalized) div 1000 + 1))"
      using ne by (rule_tac last)
    then show ?thesis using cursor_last_is_max[OF ne le] by simp
  qed
  have hint: "normalized = [] \<Longrightarrow> nextSince = JNum m \<Longrightarrow> cursorRef st' = m" for m
    by (simp add: st' applyCursorAdvance_def)
  have keep: "normalized = [] \<Longrightarrow> (\<forall>m. nextSince \<noteq> JNum m) \<Longrightarrow> cursorRef st' = cursorRef st"
    by (cases nextSince) (simp_all add: st' applyCursorAdvance_def)
  show ?thesis
  proof (intro conjI impI)
    assume a: "normalized \<noteq> [] \<and> date (last normalized) = Some t \<and> cursorRef st = Finite c
          \<and> c \<le> real_of_int (t div 1000)"
    then have "cursorRef st' = Finite (real_of_int (t div 1000 + 1))" by (intro last) simp_all
    moreover have "c < real_of_int (t div 1000 + 1)" using a by simp
    ultimately show "\<exists>c'. cursorRef st' = Finite c' \<and> c < c'" by blast
  next
    assume "normalized = [] \<and> nextSince = JNum (Finite h) \<and> cursorRef st = Finite c \<and> c \<le> h"
    then show "\<exists>c'. cursorRef st' = Finite c' \<and> c \<le> c'" using hint[of "Finite h"] by simp
  qed (use last fl mx hint keep in simp_all)
qed

theorem C2_cursor_after_fetch_witness:
  "fetchBatch sampleRuntime (sampleState [])
       (Payload (Some [rawRecord [(''id'', JStr ''obs-1''), (''timestamp'', JNum (Finite 1700000000))]])
          JUndefined)
     = Inr ([(sampleObs ''obs-1'' ''1970-01-01T00:00:00.000Z'' 0)],
            (sampleState []) \<lparr> lastTimestampRef := Some ''1970-01-01T00:00:00.000Z'',
                                cursorRef := Finite 1 \<rparr>)
   \<and> validDates [sampleObs ''obs-1'' ''1970-01-01T00:00:00.000Z'' 0]
   \<and> date (last [sampleObs ''obs-1'' ''1970-01-01T00:00:00.000Z'' 0]) = Some 0
   \<and> cursorRef (sampleState []) = Finite 0
   \<and> (0::real) \<le> real_of_int (0 div 1000)
   \<and> Finite 1 = Finite (real_of_int (Max (instant ` set [sampleObs ''obs-1'' ''1970-01-01T00:00:00.000Z'' 0])
        div 1000 + 1))
   \<and> fetchBatch sampleRuntime (sampleState []) (Payload None (JNum (Finite 1700003600)))
     = Inr ([], (sampleState []) \<lparr> cursorRef := Finite 1700003600 \<rparr>)
   \<and> fetchBatch sampleRuntime (sampleState []) (Payload (Some []) JNull)
     = Inr ([], sampleState [])"
proof -
  have f1: "fetchBatch sampleRuntime (sampleState [])
       (Payload (Some [rawRecord [(''id'', JStr ''obs-1''), (''timestamp'', JNum (Finite 1700000000))]])
          JUndefined)
     = Inr ([(sampleObs ''obs-1'' ''1970-01-01T00:00:00.000Z'' 0)],
            (sampleState []) \<lparr> lastTimestampRef := Some ''1970-01-01T00:00:00.000Z'',
                                cursorRef := Finite 1 \<rparr>)"
    by (simp add: fetchBatch_def applyCursorAdvance_def normalizeObservation_def sampleRuntime_def
        nullish_def secondsOrMillis_def TimeClip_def toISOString_def sampleObs_def hypot_def
        sampleState_def enumerate_eq_zip)
  have f2: "fetchBatch sampleRuntime (sampleState []) (Payload None (JNum (Finite 1700003600)))
     = Inr ([], (sampleState []) \<lparr> cursorRef := Finite 1700003600 \<rparr>)"
    by (simp add: fetchBatch_def applyCursorAdvance_def)
  have f3: "fetchBatch sampleRuntime (sampleState []) (Payload (Some []) JNull)
     = Inr ([], sampleState [])"
    by (simp add: fetchBatch_def applyCursorAdvance_def)
  have v: "validDates [sampleObs ''obs-1'' ''1970-01-01T00:00:00.000Z'' 0]"
    by (simp add: validDates_def sampleObs_def)
  have d: "date (last [sampleObs ''obs-1'' ''1970-01-01T00:00:00.000Z'' 0]) = Some 0"
    by (simp add: sampleObs_def)
  have c: "cursorRef (sampleState []) = Finite 0" by (simp add: sampleState_def)
  show ?thesis
    using C2_cursor_after_fetch[OF f1, of 0 NaN 0 0] C2_cursor_after_fetch[OF f2, of 0 "Finite 1700003600" 0 1700003600]
      C2_cursor_after_fetch[OF f3, of 0 NaN 0 0] f1 f2 f3 v d c
    by (simp add: instant_def sampleObs_def)
qed

text \<open>
  A batch whose last record is not its latest: the cursor follows the last record (2, not
  6), and here it falls back from 100 to 2. A hint below the cursor is adopted as well.
\<close>

theorem C2_cursor_counterexample:
  "cursorRef (applyCursorAdvance ((sampleState []) \<lparr> cursorRef := Finite 100 \<rparr>)
       [sampleObs ''a'' ''t1'' 5000, sampleObs ''b'' ''t2'' 1000] JUndefined) = Finite 2
   \<and> Max (instant ` set [sampleObs ''a'' ''t1'' 5000, sampleObs ''b'' ''t2'' 1000]) div 1000 + 1 = 6
   \<and> cursorRef (applyCursorAdvance ((sampleState []) \<lparr> cursorRef := Finite 100 \<rparr>)
       [] (JNum (Finite 7))) = Finite 7"
  by (simp add: applyCursorAdvance_def sampleObs_def instant_def)











end
